theory Spec2Isabelle
  imports Complex_Main "HOL-Library.FSet" "HOL-Library.AList" "HOL-Library.Multiset"
begin

section \<open>Hybrid recommender: the scoring and ranking engine of recommender.py\<close>

text \<open>
  Conventions of the embedding.
  \<^item> Item ids and popularity counts are Python ints: \<open>int\<close>.
  \<^item> Python floats (rule scores, normalized scores, the threshold, alpha) are idealised
    as exact reals: rounding, infinities and NaN are not modelled. \<open>0.2\<close> is \<open>1/5\<close> and
    \<open>1e-9\<close> is \<open>1 / 10^9\<close>.
  \<^item> A dict is an association list in insertion order with distinct keys; \<open>d[k] = v\<close> is
    \<open>AList.update\<close> (overwrite in place, or append), \<open>d.get(k, x)\<close> is \<open>dict_get\<close>.
  \<^item> The basket is a finite set of ints: \<open>int fset\<close>.
  \<^item> Exceptions are values of \<open>error\<close>; a function that can raise returns \<open>error + 'a\<close>.
\<close>

subsection \<open>Errors, dicts and slices\<close>

datatype error = DataUnavailable | ValueError | ZeroDivisionError

type_synonym ('k, 'v) dict = "('k \<times> 'v) list"

definition dict_get :: "('k \<rightharpoonup> 'v) \<Rightarrow> 'k \<Rightarrow> 'v \<Rightarrow> 'v" where
  "dict_get m k dflt = (case m k of None \<Rightarrow> dflt | Some v \<Rightarrow> v)"

text \<open>A dict built by a comprehension over a list of pairs: a later pair overwrites an
  earlier one with the same key, which keeps its place.\<close>

definition dict_of :: "('k \<times> 'v) list \<Rightarrow> ('k, 'v) dict" where
  "dict_of kvs = foldl (\<lambda>d (k, v). AList.update k v d) [] kvs"

text \<open>Python's \<open>xs[:n]\<close>: a negative \<open>n\<close> counts from the end.\<close>

definition py_prefix :: "int \<Rightarrow> 'a list \<Rightarrow> 'a list" where
  "py_prefix n xs = (if 0 \<le> n then take (nat n) xs else take (nat (int (length xs) + n)) xs)"

text \<open>Python's true division \<open>x / y\<close>, which raises on a zero divisor.\<close>

definition truediv :: "real \<Rightarrow> real \<Rightarrow> error + real" where
  "truediv x y = (if y = 0 then Inl ZeroDivisionError else Inr (x / y))"

subsection \<open>interleave_pairs\<close>

text \<open>The local variables of the loop: \<open>out\<close>, \<open>seen\<close>, the cursors \<open>ia\<close>, \<open>ib\<close> and \<open>turn\<close>.\<close>

record 'v loop_state =
  out :: "(int \<times> 'v \<times> string) list"
  seen :: "int set"
  ia :: nat
  ib :: nat
  turn :: string

text \<open>The inner loop of the backfill branch (lines 38-43):
  \<^verbatim>\<open>while len(out) < top_n and ib < len(b)\<close>.\<close>

function backfill ::
  "(int \<times> 'v) list \<Rightarrow> int \<Rightarrow> (int \<times> 'v \<times> string) list \<Rightarrow> int set \<Rightarrow> nat
    \<Rightarrow> (int \<times> 'v \<times> string) list" where
  "backfill b top_n out_acc seen_acc i =
     (if int (length out_acc) < top_n \<and> i < length b then
        (let (iid, score) = b ! i in
           if iid \<notin> seen_acc
           then backfill b top_n (out_acc @ [(iid, score, ''global'')]) (insert iid seen_acc) (i + 1)
           else backfill b top_n out_acc seen_acc (i + 1))
      else out_acc)"
  by pat_completeness auto
termination
  by (relation "measure (\<lambda>(b, top_n, out_acc, seen_acc, i). length b - i)") auto

declare backfill.simps [simp del]

text \<open>One pass through the body of the outer \<open>while\<close> (lines 18-46): either the loop goes
  on with new locals, or the backfill branch leaves it through \<open>break\<close>.\<close>

datatype 'v step = Continue "'v loop_state" | Break "(int \<times> 'v \<times> string) list"

definition loop_cond :: "(int \<times> 'v) list \<Rightarrow> (int \<times> 'v) list \<Rightarrow> int \<Rightarrow> 'v loop_state \<Rightarrow> bool" where
  "loop_cond a b top_n s \<longleftrightarrow>
     int (length (out s)) < top_n \<and> (ia s < length a \<or> ib s < length b)"

definition loop_body ::
  "(int \<times> 'v) list \<Rightarrow> (int \<times> 'v) list \<Rightarrow> (int \<rightharpoonup> real) \<Rightarrow> real \<Rightarrow> int
    \<Rightarrow> 'v loop_state \<Rightarrow> 'v step" where
  "loop_body a b region_norm threshold top_n s =
     (if turn s = ''region'' \<and> ia s < length a then
        (let (iid, score) = a ! ia s;
             s1 = s\<lparr>ia := ia s + 1\<rparr>;
             s2 = (if iid \<notin> seen s1 \<and> threshold \<le> dict_get region_norm iid 0
                   then s1\<lparr>out := out s1 @ [(iid, score, ''region'')], seen := insert iid (seen s1)\<rparr>
                   else s1)
         in Continue (s2\<lparr>turn := ''global''\<rparr>))
      else if turn s = ''global'' \<and> ib s < length b then
        (let (iid, score) = b ! ib s;
             s1 = s\<lparr>ib := ib s + 1\<rparr>;
             s2 = (if iid \<notin> seen s1
                   then s1\<lparr>out := out s1 @ [(iid, score, ''global'')], seen := insert iid (seen s1)\<rparr>
                   else s1)
         in Continue (s2\<lparr>turn := ''region''\<rparr>))
      else if length a \<le> ia s
              \<or> list_all (\<lambda>x. dict_get region_norm (fst x) 0 < threshold) (drop (ia s) a)
        then Break (backfill b top_n (out s) (seen s) (ib s))
      else Continue (s\<lparr>turn := ''region''\<rparr>))"

text \<open>What bounds the remaining iterations: two per unread entry, and one more while the
  turn is not the region's.\<close>

definition loop_measure :: "(int \<times> 'v) list \<Rightarrow> (int \<times> 'v) list \<Rightarrow> 'v loop_state \<Rightarrow> nat" where
  "loop_measure a b s =
     2 * ((length a - ia s) + (length b - ib s)) + (if turn s = ''region'' then 0 else 1)"

function interleave_loop ::
  "(int \<times> 'v) list \<Rightarrow> (int \<times> 'v) list \<Rightarrow> (int \<rightharpoonup> real) \<Rightarrow> real \<Rightarrow> int
    \<Rightarrow> 'v loop_state \<Rightarrow> (int \<times> 'v \<times> string) list" where
  "interleave_loop a b region_norm threshold top_n s =
     (if loop_cond a b top_n s then
        (case loop_body a b region_norm threshold top_n s of
           Continue s' \<Rightarrow> interleave_loop a b region_norm threshold top_n s'
         | Break r \<Rightarrow> r)
      else out s)"
  by pat_completeness auto
termination
  by (relation "measure (\<lambda>(a, b, rn, th, top_n, s). loop_measure a b s)")
     (auto simp: loop_body_def loop_measure_def Let_def split: if_splits prod.splits)

declare interleave_loop.simps [simp del]

definition init_state :: "'v loop_state" where
  "init_state = \<lparr>out = [], seen = {}, ia = 0, ib = 0, turn = ''region''\<rparr>"

definition interleave_pairs ::
  "(int \<times> 'v) list \<Rightarrow> (int \<times> 'v) list \<Rightarrow> (int \<rightharpoonup> real) \<Rightarrow> real \<Rightarrow> int
    \<Rightarrow> (int \<times> 'v \<times> string) list" where
  "interleave_pairs a b region_norm threshold top_n =
     interleave_loop a b region_norm threshold top_n init_state"

text \<open>The same loop with an iteration budget: \<open>None\<close> when the budget runs out before
  the loop has left.\<close>

fun loop_fuel ::
  "nat \<Rightarrow> (int \<times> 'v) list \<Rightarrow> (int \<times> 'v) list \<Rightarrow> (int \<rightharpoonup> real) \<Rightarrow> real \<Rightarrow> int
    \<Rightarrow> 'v loop_state \<Rightarrow> (int \<times> 'v \<times> string) list option" where
  "loop_fuel 0 a b region_norm threshold top_n s =
     (if loop_cond a b top_n s then None else Some (out s))"
| "loop_fuel (Suc n) a b region_norm threshold top_n s =
     (if loop_cond a b top_n s then
        (case loop_body a b region_norm threshold top_n s of
           Continue s' \<Rightarrow> loop_fuel n a b region_norm threshold top_n s'
         | Break r \<Rightarrow> Some r)
      else Some (out s))"

subsection \<open>Normalizers\<close>

text \<open>A comprehension \<^verbatim>\<open>{k: e(v) for k, v in items}\<close> whose expression can raise: the
  first raise ends it.\<close>

fun comp_items :: "('v \<Rightarrow> error + real) \<Rightarrow> ('k \<times> 'v) list \<Rightarrow> error + ('k \<times> real) list" where
  "comp_items f [] = Inr []"
| "comp_items f ((k, v) # kvs) =
     (case f v of
        Inl e \<Rightarrow> Inl e
      | Inr q \<Rightarrow> (case comp_items f kvs of Inl e \<Rightarrow> Inl e | Inr r \<Rightarrow> Inr ((k, q) # r)))"

text \<open>\<open>minmax_norm\<close>, local to the cold-start branch of \<open>recommend\<close> (lines 285-291), on a
  list of (item, count) pairs.\<close>

definition minmax_norm :: "(int \<times> int) list \<Rightarrow> error + (int, real) dict" where
  "minmax_norm vals =
     (if vals = [] then Inr []
      else
        (let min_v = Min (set (map snd vals)); max_v = Max (set (map snd vals)) in
           if max_v = min_v then Inr (dict_of (map (\<lambda>(iid, _). (iid, 1)) vals))
           else
             (case comp_items (\<lambda>v. truediv (real_of_int (v - min_v)) (real_of_int (max_v - min_v))) vals of
                Inl e \<Rightarrow> Inl e
              | Inr kvs \<Rightarrow> Inr (dict_of kvs))))"

text \<open>\<open>minmax_dict\<close>, local to the warm-start branch (lines 342-346): the epsilon variant.\<close>

definition minmax_dict :: "(int, real) dict \<Rightarrow> error + (int, real) dict" where
  "minmax_dict d =
     (if d = [] then Inr []
      else
        (let vals = map snd d; min_v = Min (set vals); max_v = Max (set vals) in
           comp_items (\<lambda>v. truediv (v - min_v) (max_v - min_v + 1 / 10 ^ 9)) d))"

text \<open>The method \<open>_normalize_rule_scores\<close> (lines 229-238).\<close>

definition normalize_rule_scores :: "(int, real) dict \<Rightarrow> error + (int, real) dict" where
  "normalize_rule_scores rules_dict =
     (if rules_dict = [] then Inr []
      else
        (let vals = map snd rules_dict; mn = Min (set vals); mx = Max (set vals) in
           if mx = mn then Inr (map (\<lambda>(iid, v). (iid, if 0 < v then 1 else 0)) rules_dict)
           else comp_items (\<lambda>v. truediv (v - mn) (mx - mn)) rules_dict))"

text \<open>\<open>math.log1p\<close>, which raises ValueError outside its domain, and the method
  \<open>_normalize_pop_scores\<close> (lines 240-256).\<close>

definition log1p :: "real \<Rightarrow> error + real" where
  "log1p v = (if v \<le> - 1 then Inl ValueError else Inr (ln (1 + v)))"

definition normalize_pop_scores :: "(int, real) dict \<Rightarrow> error + (int, real) dict" where
  "normalize_pop_scores pop_scores =
     (if pop_scores = [] then Inr []
      else
        (case comp_items log1p pop_scores of
           Inl e \<Rightarrow> Inl e
         | Inr logs \<Rightarrow>
             (let vals_log = map snd logs; mn = Min (set vals_log); mx = Max (set vals_log) in
                if mx = mn then Inr (map (\<lambda>(iid, v). (iid, if 0 < v then 1 else 0)) pop_scores)
                else
                  comp_items
                    (\<lambda>v. case log1p v of Inl e \<Rightarrow> Inl e | Inr y \<Rightarrow> truediv (y - mn) (mx - mn))
                    pop_scores)))"

subsection \<open>The adaptive blend weight\<close>

text \<open>The method \<open>_adaptive_alpha\<close> (lines 220-227); its default \<open>c\<close> is 3.0.\<close>

definition adaptive_alpha :: "int \<Rightarrow> real \<Rightarrow> error + real" where
  "adaptive_alpha basket_size c =
     (if basket_size \<le> 0 then Inr 0
      else truediv (real_of_int basket_size) (real_of_int basket_size + c))"

text \<open>The weight as \<open>recommend\<close> computes it inline (lines 355-356), from \<open>len(self.basket)\<close>.\<close>

definition blend_alpha :: "nat \<Rightarrow> error + real" where
  "blend_alpha n =
     (let c = 3 in
        case truediv (real n) (real (n + c)) of
          Inl e \<Rightarrow> Inl e
        | Inr q \<Rightarrow> Inr (min 1 (max 0 q)))"

subsection \<open>The engine, the database and the two fetches\<close>

text \<open>The fields of \<open>HybridRecommender\<close> the scoring reads or writes. The connection
  parameters and the table names only reach the database and are left to \<open>env\<close>.\<close>

record engine =
  region :: string
  basket :: "int fset"
  id_to_item :: "int \<rightharpoonup> string"

text \<open>A row of the rule query: \<open>(consequent_key, confidence, lift, score)\<close>.\<close>

type_synonym rule_row = "string \<times> real \<times> real \<times> real"

text \<open>What lies outside the source, taken as parameters: whether \<open>connect\<close> raises; the
  popularity query (region, excluded ids, limit) and the rule query (basket, limit), each
  returning its rows or raising; \<open>ints_of_key s\<close> for \<^verbatim>\<open>map(int, s.split(","))\<close>, which raises
  on text that is no integer; and \<open>set_first xs\<close> for \<^verbatim>\<open>list(set(xs))[0]\<close>, the element
  which the iteration order of a Python set puts first.\<close>

record env =
  connect :: "error option"
  pop_query :: "string \<Rightarrow> int fset \<Rightarrow> int \<Rightarrow> error + (int \<times> int) list"
  rule_query :: "int fset \<Rightarrow> int \<Rightarrow> error + rule_row list"
  ints_of_key :: "string \<Rightarrow> error + int list"
  set_first :: "int list \<Rightarrow> int"

text \<open>\<open>_fetch_popularity\<close> (lines 129-176).\<close>

definition fetch_popularity ::
  "env \<Rightarrow> engine \<Rightarrow> int \<Rightarrow> int \<Rightarrow> int fset \<Rightarrow> error + (int \<times> int \<times> string) list" where
  "fetch_popularity db eng top_n_region top_n_global exclude_ids =
     (case connect db of
        Some e \<Rightarrow> Inl e
      | None \<Rightarrow>
          (case pop_query db (region eng) exclude_ids (top_n_region * 2) of
             Inl e \<Rightarrow> Inl e
           | Inr region_rows \<Rightarrow>
               (case pop_query db ''GLOBAL'' exclude_ids (top_n_global * 2) of
                  Inl e \<Rightarrow> Inl e
                | Inr global_rows \<Rightarrow>
                    (let region_tagged = map (\<lambda>(iid, score). (iid, score, ''region'')) region_rows;
                         global_tagged = map (\<lambda>(iid, score). (iid, score, ''global'')) global_rows
                     in Inr (region_tagged @ global_tagged)))))"

text \<open>The loop over the rows in \<open>_fetch_rules\<close> (lines 205-214).\<close>

fun collect_rules ::
  "env \<Rightarrow> int fset \<Rightarrow> rule_row list \<Rightarrow> (int, real) dict \<Rightarrow> error + (int, real) dict" where
  "collect_rules db basket_set [] recs = Inr recs"
| "collect_rules db basket_set ((cons_str, conf, lift, score) # rows) recs =
     (case ints_of_key db cons_str of
        Inl e \<Rightarrow> Inl e
      | Inr cons_items \<Rightarrow>
          if fset_of_list cons_items |\<inter>| basket_set \<noteq> {||}
          then collect_rules db basket_set rows recs
          else
            (let c = set_first db cons_items
             in collect_rules db basket_set rows
                  (AList.update c (max (dict_get (map_of recs) c 0) score) recs)))"

text \<open>\<open>_fetch_rules\<close> (lines 183-214).\<close>

definition fetch_rules :: "env \<Rightarrow> int fset \<Rightarrow> int \<Rightarrow> error + (int, real) dict" where
  "fetch_rules db basket_ids fetch_limit =
     (if basket_ids = {||} then Inr []
      else
        (case connect db of
           Some e \<Rightarrow> Inl e
         | None \<Rightarrow>
             (case rule_query db basket_ids fetch_limit of
                Inl e \<Rightarrow> Inl e
              | Inr rows \<Rightarrow> collect_rules db basket_ids rows [])))"

subsection \<open>recommend\<close>

text \<open>\<open>str(n)\<close> for the placeholder \<^verbatim>\<open><unknown:ID>\<close>.\<close>

function str_nat :: "nat \<Rightarrow> string" where
  "str_nat n =
     (if n < 10 then [''0123456789'' ! n]
      else str_nat (n div 10) @ [''0123456789'' ! (n mod 10)])"
  by pat_completeness auto
termination
  by (relation "measure (\<lambda>n. n)") auto

declare str_nat.simps [simp del]

definition str_int :: "int \<Rightarrow> string" where
  "str_int i = (if i < 0 then CHR ''-'' # str_nat (nat (- i)) else str_nat (nat i))"

definition describe :: "engine \<Rightarrow> int \<Rightarrow> string" where
  "describe eng iid = dict_get (id_to_item eng) iid (''<unknown:'' @ str_int iid @ ''>'')"

text \<open>The output dicts: the keys of a cold-start record and those of a warm-start record.\<close>

datatype recommendation =
    ColdRec (item_id: int) (description: string)
      (region_score: "real option") (global_score: "real option") (source: string)
  | WarmRec (item_id: int) (description: string)
      (final_score: real) (rule_norm: "real option") (pop_norm: "real option") (source: string)

text \<open>Case A, after the popularity fetch (lines 280-309).\<close>

definition cold_start :: "engine \<Rightarrow> int \<Rightarrow> (int \<times> int \<times> string) list \<Rightarrow> error + recommendation list" where
  "cold_start eng top_n pop_all =
     (let pop_region = map (\<lambda>(iid, score, src). (iid, score))
                         (filter (\<lambda>(iid, score, src). src = ''region'') pop_all);
          pop_global = map (\<lambda>(iid, score, src). (iid, score))
                         (filter (\<lambda>(iid, score, src). src = ''global'') pop_all)
      in case minmax_norm pop_region of
           Inl e \<Rightarrow> Inl e
         | Inr region_norm \<Rightarrow>
             (case minmax_norm pop_global of
                Inl e \<Rightarrow> Inl e
              | Inr global_norm \<Rightarrow>
                  (let pop = interleave_pairs pop_region pop_global (map_of region_norm) (1 / 5) top_n
                   in Inr (map (\<lambda>(iid, score, src).
                             ColdRec iid (describe eng iid)
                               (if src = ''region'' then map_of region_norm iid else None)
                               (if src = ''global'' then map_of global_norm iid else None)
                               src)
                           (py_prefix top_n pop)))))"

text \<open>The inner dict of \<open>candidate_scores\<close>: the optional keys \<open>"rule"\<close> and \<open>"pop"\<close>.\<close>

record comp =
  c_rule :: "real option"
  c_pop :: "real option"

text \<open>The two loops that fill \<open>candidate_scores\<close> (lines 322-324 and 333-337).\<close>

definition rule_candidates :: "int fset \<Rightarrow> (int \<times> real) list \<Rightarrow> (int, comp) dict" where
  "rule_candidates bsk ranked_rules =
     foldl (\<lambda>cs (iid, score).
              if iid |\<notin>| bsk then AList.update iid \<lparr>c_rule = Some score, c_pop = None\<rparr> cs else cs)
           [] ranked_rules"

definition pop_candidates ::
  "int fset \<Rightarrow> (int \<times> int \<times> string) list \<Rightarrow> (int, comp) dict \<Rightarrow> (int, comp) dict" where
  "pop_candidates bsk pop cs0 =
     foldl (\<lambda>cs (iid, score, src).
              if iid |\<notin>| bsk then
                (let cs1 = (if map_of cs iid = None
                            then AList.update iid \<lparr>c_rule = None, c_pop = None\<rparr> cs else cs)
                 in AList.map_entry iid (\<lambda>c. c\<lparr>c_pop := Some (real_of_int score)\<rparr>) cs1)
              else cs)
           cs0 pop"

text \<open>The final scoring loop (lines 360-372): one record per candidate.\<close>

definition warm_record ::
  "engine \<Rightarrow> real \<Rightarrow> (int \<rightharpoonup> real) \<Rightarrow> (int \<rightharpoonup> real) \<Rightarrow> int \<times> comp \<Rightarrow> recommendation" where
  "warm_record eng alpha rule_nm pop_nm cand =
     (case cand of (iid, cmp) \<Rightarrow>
        (let rn = dict_get rule_nm iid 0;
             pn = dict_get pop_nm iid 0;
             final = alpha * rn + (1 - alpha) * pn
         in WarmRec iid (describe eng iid) final
              (if c_rule cmp \<noteq> None then Some rn else None)
              (if c_pop cmp \<noteq> None then Some pn else None)
              (if c_rule cmp \<noteq> None then ''rules'' else ''popularity'')))"

text \<open>\<^verbatim>\<open>sorted(xs, key=..., reverse=True)\<close>: descending, and stable.\<close>

definition sorted_desc :: "('a \<Rightarrow> real) \<Rightarrow> 'a list \<Rightarrow> 'a list" where
  "sorted_desc key xs = sort_key (\<lambda>x. - key x) xs"

text \<open>Case B, after both fetches (lines 339-376).\<close>

definition rule_scores_of :: "(int, comp) dict \<Rightarrow> (int, real) dict" where
  "rule_scores_of cs = List.map_filter (\<lambda>(iid, c). map_option (\<lambda>v. (iid, v)) (c_rule c)) cs"

definition pop_scores_of :: "(int, comp) dict \<Rightarrow> (int, real) dict" where
  "pop_scores_of cs = List.map_filter (\<lambda>(iid, c). map_option (\<lambda>v. (iid, v)) (c_pop c)) cs"

definition warm_scoring :: "engine \<Rightarrow> int \<Rightarrow> (int, comp) dict \<Rightarrow> error + recommendation list" where
  "warm_scoring eng top_n candidate_scores =
     (case minmax_dict (rule_scores_of candidate_scores) of
        Inl e \<Rightarrow> Inl e
      | Inr rule_nm \<Rightarrow>
          (case minmax_dict (pop_scores_of candidate_scores) of
             Inl e \<Rightarrow> Inl e
           | Inr pop_nm \<Rightarrow>
               (case blend_alpha (fcard (basket eng)) of
                  Inl e \<Rightarrow> Inl e
                | Inr alpha \<Rightarrow>
                    (let results = map (warm_record eng alpha (map_of rule_nm) (map_of pop_nm))
                                     candidate_scores
                     in Inr (py_prefix top_n (sorted_desc final_score results))))))"

text \<open>\<open>recommend\<close> (lines 261-376).\<close>

definition recommend :: "env \<Rightarrow> engine \<Rightarrow> int \<Rightarrow> error + recommendation list" where
  "recommend db eng top_n =
     (let exclude = basket eng in
        if basket eng = {||} then
          (case fetch_popularity db eng top_n top_n exclude of
             Inl e \<Rightarrow> Inl e
           | Inr pop_all \<Rightarrow> cold_start eng top_n pop_all)
        else
          (case fetch_rules db (basket eng) (top_n * 8) of
             Inl e \<Rightarrow> Inl e
           | Inr rules_dict \<Rightarrow>
               (let ranked_rules = sorted_desc snd rules_dict;
                    cs_rules = rule_candidates (basket eng) ranked_rules;
                    exclude_more = basket eng |\<union>| fset_of_list (map fst cs_rules)
                in case fetch_popularity db eng top_n top_n exclude_more of
                     Inl e \<Rightarrow> Inl e
                   | Inr pop \<Rightarrow>
                       warm_scoring eng top_n (pop_candidates (basket eng) pop cs_rules))))"

subsection \<open>Basket mutation\<close>

text \<open>\<open>add_item\<close> and \<open>remove_item\<close> (lines 117-124) write the basket and then call
  \<open>recommend\<close>; the engine after the call is returned beside the result, which is the
  exception when one was raised.\<close>

definition add_item :: "env \<Rightarrow> engine \<Rightarrow> int \<Rightarrow> int \<Rightarrow> engine \<times> (error + recommendation list)" where
  "add_item db eng item top_n =
     (let eng1 = eng\<lparr>basket := finsert item (basket eng)\<rparr>
      in (eng1, recommend db eng1 top_n))"

definition remove_item :: "env \<Rightarrow> engine \<Rightarrow> int \<Rightarrow> int \<Rightarrow> engine \<times> (error + recommendation list)" where
  "remove_item db eng item top_n =
     (let eng1 = eng\<lparr>basket := basket eng |-| {|item|}\<rparr>
      in (eng1, recommend db eng1 top_n))"

definition reset_basket :: "engine \<Rightarrow> engine" where
  "reset_basket eng = eng\<lparr>basket := {||}\<rparr>"

definition set_region :: "engine \<Rightarrow> string \<Rightarrow> engine" where
  "set_region eng r = eng\<lparr>region := r\<rparr>"

subsection \<open>Reference definitions\<close>

text \<open>The epsilon min-max formula in the spec's words: \<open>(v - min) / (max - min + 1e-9)\<close> over
  the values \<open>vals\<close>.\<close>

definition eps_norm :: "real list \<Rightarrow> real \<Rightarrow> real" where
  "eps_norm vals v = (v - Min (set vals)) / (Max (set vals) - Min (set vals) + 1 / 10 ^ 9)"

text \<open>A global list without its repeated ids, in the spec's words "in original rank order":
  \<open>first_unseen sn xs\<close> keeps of \<open>xs\<close>, in order, the first entry of every id outside \<open>sn\<close>;
  \<open>tag_global\<close> marks an entry as coming from the global list.\<close>

fun first_unseen :: "int set \<Rightarrow> (int \<times> 'v) list \<Rightarrow> (int \<times> 'v) list" where
  "first_unseen sn [] = []"
| "first_unseen sn ((iid, score) # xs) =
     (if iid \<in> sn then first_unseen sn xs else (iid, score) # first_unseen (insert iid sn) xs)"

definition tag_global :: "int \<times> 'v \<Rightarrow> int \<times> 'v \<times> string" where
  "tag_global p = (fst p, snd p, ''global'')"

text \<open>The invariant of both loops of \<open>interleave_pairs\<close> on \<open>out\<close> and \<open>seen\<close>.\<close>

definition out_inv ::
  "(int \<rightharpoonup> real) \<Rightarrow> real \<Rightarrow> int \<Rightarrow> (int \<times> 'v \<times> string) list \<Rightarrow> int set \<Rightarrow> bool" where
  "out_inv rn th top_n outl seenl \<longleftrightarrow>
     int (length outl) \<le> max 0 top_n \<and> distinct (map fst outl) \<and> fst ` set outl \<subseteq> seenl
     \<and> (\<forall>(iid, score, src) \<in> set outl. src = ''region'' \<longrightarrow> th \<le> dict_get rn iid 0)"

text \<open>The warm-start record of a candidate in the spec's words: each signal the candidate
  carries is normalized by the epsilon formula over the raw values \<open>rule_vals\<close>, \<open>pop_vals\<close> of
  the candidates carrying it; the final score is \<open>alpha * rule_norm + (1 - alpha) * pop_norm\<close>
  with 0.0 for a missing signal; the tag is "rules" when there is a rule signal.\<close>

definition spec_warm_record ::
  "engine \<Rightarrow> real \<Rightarrow> real list \<Rightarrow> real list \<Rightarrow> int \<times> comp \<Rightarrow> recommendation" where
  "spec_warm_record eng alpha rule_vals pop_vals cand =
     (case cand of (iid, cmp) \<Rightarrow>
        (let rule_n = map_option (eps_norm rule_vals) (c_rule cmp);
             pop_n = map_option (eps_norm pop_vals) (c_pop cmp)
         in WarmRec iid (describe eng iid)
              (alpha * (case rule_n of None \<Rightarrow> 0 | Some x \<Rightarrow> x)
                 + (1 - alpha) * (case pop_n of None \<Rightarrow> 0 | Some y \<Rightarrow> y))
              rule_n pop_n
              (if c_rule cmp = None then ''popularity'' else ''rules'')))"

text \<open>Invariants of \<open>candidate_scores\<close>: its keys are distinct and outside the basket; and,
  relative to the key set \<open>K\<close> of the rule candidates, an entry carries exactly the rule signal
  when its key is in \<open>K\<close> and exactly the popularity signal otherwise.\<close>

definition cands_inv :: "int fset \<Rightarrow> (int, comp) dict \<Rightarrow> bool" where
  "cands_inv bsk cs \<longleftrightarrow> distinct (map fst cs) \<and> fst ` set cs \<inter> fset bsk = {}"

definition one_signal :: "int set \<Rightarrow> (int, comp) dict \<Rightarrow> bool" where
  "one_signal K cs \<longleftrightarrow>
     (\<forall>(iid, c) \<in> set cs. (iid \<in> K \<and> c_rule c \<noteq> None \<and> c_pop c = None)
                        \<or> (iid \<notin> K \<and> c_rule c = None \<and> c_pop c \<noteq> None))"

text \<open>One pass of the loop over the popularity rows (the function folded by
  \<open>pop_candidates\<close>).\<close>

definition pop_step :: "int fset \<Rightarrow> (int, comp) dict \<Rightarrow> int \<times> int \<times> string \<Rightarrow> (int, comp) dict" where
  "pop_step bsk cs p = (case p of (iid, score, src) \<Rightarrow>
              if iid |\<notin>| bsk then
                (let cs1 = (if map_of cs iid = None
                            then AList.update iid \<lparr>c_rule = None, c_pop = None\<rparr> cs else cs)
                 in AList.map_entry iid (\<lambda>c. c\<lparr>c_pop := Some (real_of_int score)\<rparr>) cs1)
              else cs)"

subsection \<open>Example data\<close>

text \<open>A database with two rules for basket \<open>{10}\<close> and two popularity rows per region, which
  honours exclusion lists and limits; the same database unreachable; and the same database
  with a failing popularity query.\<close>

definition demo_db :: env where
  "demo_db =
     \<lparr>connect = None,
      pop_query = (\<lambda>r ex lim. Inr (take (nat lim) (filter (\<lambda>(i, c). i |\<notin>| ex)
                     (if r = ''GLOBAL'' then [(40, 50), (20, 5)] else [(20, 5), (40, 50)])))),
      rule_query = (\<lambda>b lim. Inr (take (nat lim) [(''20'', 1, 2, 9 / 10), (''30'', 1, 2, 4 / 10)])),
      ints_of_key = (\<lambda>s. if s = ''20'' then Inr [20] else if s = ''30'' then Inr [30]
                          else Inl ValueError),
      set_first = hd\<rparr>"

definition demo_engine :: engine where
  "demo_engine = \<lparr>region = ''EU'', basket = {|10|}, id_to_item = [20 \<mapsto> ''tea'']\<rparr>"

definition down_db :: env where
  "down_db = demo_db\<lparr>connect := Some DataUnavailable\<rparr>"

definition pop_down_db :: env where
  "pop_down_db = demo_db\<lparr>pop_query := (\<lambda>r ex lim. Inl DataUnavailable)\<rparr>"

section \<open>Properties\<close>

subsection \<open>The adaptive blend weight\<close>

lemma adaptive_alpha_pos:
  "0 < n \<Longrightarrow> adaptive_alpha n 3 = Inr (real_of_int n / (real_of_int n + 3))"
  by (simp add: adaptive_alpha_def truediv_def)

lemma adaptive_alpha_nonpos: "n \<le> 0 \<Longrightarrow> adaptive_alpha n 3 = Inr 0"
  by (simp add: adaptive_alpha_def)

text \<open>The clamp to \<open>[0, 1]\<close> never acts, and the divisor is at least 3.\<close>

lemma blend_alpha_eq: "blend_alpha n = Inr (real n / (real n + 3))"
proof -
  have "0 \<le> real n / (real n + 3)" by simp
  moreover have "real n / (real n + 3) \<le> 1" by simp
  ultimately show ?thesis
    by (simp add: blend_alpha_def truediv_def Let_def add.commute)
qed

lemma ratio_mono:
  fixes x y :: real
  assumes "0 \<le> x" "x \<le> y"
  shows "x / (x + 3) \<le> y / (y + 3)"
  using assms by (simp add: field_simps)

text \<open>
  C3. The blend weight \<open>basket_size / (basket_size + c)\<close> with \<open>c = 3\<close> never decreases when
  the basket grows, and it is 1/4 for one item, 1/2 for three and 3/4 for nine. This holds
  of the method \<open>_adaptive_alpha\<close> (on every int, the non-positive ones giving 0) and of the
  weight \<open>recommend\<close> computes inline from the basket's length; neither raises.
\<close>

theorem alpha_monotone_and_values:
  "(i \<le> j \<longrightarrow> (\<exists>x y. adaptive_alpha i 3 = Inr x \<and> adaptive_alpha j 3 = Inr y \<and> x \<le> y))
   \<and> (m \<le> n \<longrightarrow> (\<exists>x y. blend_alpha m = Inr x \<and> blend_alpha n = Inr y \<and> x \<le> y))
   \<and> adaptive_alpha 1 3 = Inr (1 / 4) \<and> adaptive_alpha 3 3 = Inr (1 / 2)
   \<and> adaptive_alpha 9 3 = Inr (3 / 4)
   \<and> blend_alpha 1 = Inr (1 / 4) \<and> blend_alpha 3 = Inr (1 / 2) \<and> blend_alpha 9 = Inr (3 / 4)"
proof -
  have mono_a: "\<exists>x y. adaptive_alpha i 3 = Inr x \<and> adaptive_alpha j 3 = Inr y \<and> x \<le> y"
    if "i \<le> j"
  proof (cases "0 < i")
    case True
    then have "0 < j" using that by simp
    have "real_of_int i / (real_of_int i + 3) \<le> real_of_int j / (real_of_int j + 3)"
      using True that by (intro ratio_mono) simp_all
    then show ?thesis
      using True \<open>0 < j\<close> by (simp add: adaptive_alpha_pos)
  next
    case False
    then have i0: "adaptive_alpha i 3 = Inr 0" by (simp add: adaptive_alpha_nonpos)
    show ?thesis
    proof (cases "0 < j")
      case True
      then have "0 \<le> real_of_int j / (real_of_int j + 3)" by simp
      then show ?thesis using i0 True by (simp add: adaptive_alpha_pos)
    next
      case False
      then show ?thesis using i0 by (simp add: adaptive_alpha_nonpos)
    qed
  qed
  have mono_b: "\<exists>x y. blend_alpha m = Inr x \<and> blend_alpha n = Inr y \<and> x \<le> y" if "m \<le> n"
  proof -
    have "real m / (real m + 3) \<le> real n / (real n + 3)"
      using that by (intro ratio_mono) simp_all
    then show ?thesis by (simp add: blend_alpha_eq)
  qed
  have vals_a: "adaptive_alpha 1 3 = Inr (1 / 4)" "adaptive_alpha 3 3 = Inr (1 / 2)"
    "adaptive_alpha 9 3 = Inr (3 / 4)"
    by (simp_all add: adaptive_alpha_def truediv_def)
  have vals_b: "blend_alpha 1 = Inr (1 / 4)" "blend_alpha 3 = Inr (1 / 2)"
    "blend_alpha 9 = Inr (3 / 4)"
    by (simp_all add: blend_alpha_eq)
  show ?thesis using mono_a mono_b vals_a vals_b by blast
qed

theorem alpha_monotone_and_values_witness:
  "(1::int) \<le> 9 \<and> (1::nat) \<le> 9
   \<and> (\<exists>x y. adaptive_alpha 1 3 = Inr x \<and> adaptive_alpha 9 3 = Inr y \<and> x \<le> y)
   \<and> (\<exists>x y. blend_alpha 1 = Inr x \<and> blend_alpha 9 = Inr y \<and> x \<le> y)"
proof -
  have h: "(1::int) \<le> 9" "(1::nat) \<le> 9" by simp_all
  from alpha_monotone_and_values [of 1 9 1 9] h show ?thesis by blast
qed

subsection \<open>Normalizers\<close>

lemma comp_items_total:
  assumes "\<And>v. v \<in> snd ` set kvs \<Longrightarrow> f v = Inr (g v)"
  shows "comp_items f kvs = Inr (map (\<lambda>(k, v). (k, g v)) kvs)"
  using assms by (induction kvs) (auto simp: image_iff)

lemma eps_divisor_pos:
  assumes "vals \<noteq> []"
  shows "0 < Max (set vals) - Min (set vals) + (1::real) / 10 ^ 9"
proof -
  obtain x where x: "x \<in> set vals" using assms by (cases vals) auto
  have "Min (set vals) \<le> x" "x \<le> Max (set vals)" using x by simp_all
  then have "Min (set vals) \<le> Max (set vals)" by linarith
  then show ?thesis by (simp add: add_nonneg_pos)
qed

lemma minmax_dict_eq:
  "minmax_dict d = Inr (map (\<lambda>(k, v). (k, eps_norm (map snd d) v)) d)"
proof (cases "d = []")
  case True
  then show ?thesis by (simp add: minmax_dict_def)
next
  case False
  then have "0 < Max (set (map snd d)) - Min (set (map snd d)) + (1::real) / 10 ^ 9"
    by (intro eps_divisor_pos) simp
  then have "truediv (v - Min (set (map snd d)))
        (Max (set (map snd d)) - Min (set (map snd d)) + 1 / 10 ^ 9)
      = Inr (eps_norm (map snd d) v)" for v
    unfolding truediv_def eps_norm_def by (simp del: power_numeral)
  then show ?thesis
    using False unfolding minmax_dict_def Let_def
    by (simp add: comp_items_total del: power_numeral)
qed

lemma map_of_foldl_update:
  "map_of (foldl (\<lambda>d (k, v). AList.update k v d) acc kvs) = map_of acc ++ map_of (rev kvs)"
  by (induction kvs arbitrary: acc) (auto simp: update_conv' map_add_upd_left)

lemma map_of_dict_of: "map_of (dict_of kvs) = map_of (rev kvs)"
  by (simp add: dict_of_def map_of_foldl_update)

text \<open>What the cold-start normalizer does when all counts are equal: every item gets 1.0,
  whatever the sign of the shared count.\<close>

lemma minmax_norm_all_equal:
  assumes "vals \<noteq> []" and "\<And>p. p \<in> set vals \<Longrightarrow> snd p = c"
  shows "\<exists>d. minmax_norm vals = Inr d \<and> (\<forall>p \<in> set vals. map_of d (fst p) = Some 1)"
proof -
  have "set (map snd vals) = {c}" using assms by (cases vals) auto
  then have mm: "Min (set (map snd vals)) = c" "Max (set (map snd vals)) = c" by simp_all
  have d: "minmax_norm vals = Inr (dict_of (map (\<lambda>(iid, _). (iid, 1)) vals))"
    using assms(1) mm unfolding minmax_norm_def Let_def by simp
  have "map_of (rev (map (\<lambda>(iid, _). (iid, 1::real)) vals)) (fst p) = Some 1"
    if "p \<in> set vals" for p
  proof -
    have "map fst (map (\<lambda>(iid, _). (iid, 1::real)) vals) = map fst vals"
      by (induction vals) auto
    then have "fst ` set (map (\<lambda>(iid, _). (iid, 1::real)) vals) = fst ` set vals"
      by (metis set_map)
    then have "fst p \<in> fst ` set (rev (map (\<lambda>(iid, _). (iid, 1::real)) vals))"
      using that by simp
    then obtain y where y: "map_of (rev (map (\<lambda>(iid, _). (iid, 1::real)) vals)) (fst p) = Some y"
      by (metis domD dom_map_of_conv_image_fst)
    then have "(fst p, y) \<in> set (rev (map (\<lambda>(iid, _). (iid, 1::real)) vals))"
      by (rule map_of_SomeD)
    then have "y = 1" by auto
    then show ?thesis using y by simp
  qed
  then show ?thesis using d by (auto simp: map_of_dict_of)
qed

text \<open>The methods \<open>_normalize_rule_scores\<close> and \<open>_normalize_pop_scores\<close> of the same class
  keep zeros at 0.0 when all values are equal.\<close>

lemma normalize_rule_scores_equal_zero:
  "normalize_rule_scores [(1, 0), (2, 0)] = Inr [(1, 0), (2, 0)]"
  by (simp add: normalize_rule_scores_def)

lemma normalize_pop_scores_equal_zero:
  "normalize_pop_scores [(1, 0), (2, 0)] = Inr [(1, 0), (2, 0)]"
  by (simp add: normalize_pop_scores_def log1p_def)

text \<open>
  C1. For the cold-start normalizer \<open>minmax_norm\<close> on a non-empty list of (item, count) pairs
  whose counts are all equal, the claim is: a positive shared count gives every item 1.0,
  and a non-positive one (zero, say) gives every item 0.0. The code returns 1.0 for every
  item in both cases (\<open>minmax_norm_all_equal\<close>); evaluated here on two items of count 0,
  where the claim asks for 0.0.
\<close>

theorem minmax_norm_equal_zero_counts:
  "minmax_norm [(1, 0), (2, 0)] = Inr [(1, 1), (2, 1)]"
  by (simp add: minmax_norm_def dict_of_def)

text \<open>
  C4. The warm-start normalizer \<open>minmax_dict\<close> (the epsilon variant) never divides by zero:
  on every mapping it returns a mapping over the same keys and raises nothing, the
  divisor \<open>max - min + 1e-9\<close> being positive whenever the mapping is non-empty; and a
  mapping with one item sends that item to 0.0.
\<close>

theorem minmax_dict_never_divides_by_zero:
  "(\<exists>r. minmax_dict d = Inr r \<and> map fst r = map fst d)
   \<and> minmax_dict d \<noteq> Inl ZeroDivisionError
   \<and> (d \<noteq> [] \<longrightarrow> 0 < Max (set (map snd d)) - Min (set (map snd d)) + (1::real) / 10 ^ 9)
   \<and> minmax_dict [(k, v)] = Inr [(k, 0)]"
proof -
  have "map fst (map (\<lambda>(k, v). (k, eps_norm (map snd d) v)) d) = map fst d"
    by (induction d) auto
  then have a: "\<exists>r. minmax_dict d = Inr r \<and> map fst r = map fst d"
    by (simp add: minmax_dict_eq)
  have b: "minmax_dict d \<noteq> Inl ZeroDivisionError"
    by (simp add: minmax_dict_eq)
  have c: "d \<noteq> [] \<longrightarrow> 0 < Max (set (map snd d)) - Min (set (map snd d)) + (1::real) / 10 ^ 9"
    using eps_divisor_pos [of "map snd d"] by simp
  have e: "minmax_dict [(k, v)] = Inr [(k, 0)]"
    by (simp add: minmax_dict_eq eps_norm_def)
  from a b c e show ?thesis by blast
qed

theorem minmax_dict_never_divides_by_zero_witness:
  "[(7::int, 5::real), (8, 5)] \<noteq> []
   \<and> minmax_dict [(7, 5), (8, 5)] = Inr [(7, 0), (8, 0)]
   \<and> 0 < Max (set (map snd [(7::int, 5::real), (8, 5)]))
          - Min (set (map snd [(7::int, 5::real), (8, 5)])) + (1::real) / 10 ^ 9
   \<and> minmax_dict [(7, 5)] = Inr [(7, 0)]"
proof -
  have ne: "[(7::int, 5::real), (8, 5)] \<noteq> []" by simp
  have ev: "minmax_dict [(7, 5), (8, 5)] = Inr [(7, 0), (8, 0)]"
    by (simp add: minmax_dict_def truediv_def)
  from minmax_dict_never_divides_by_zero [of "[(7, 5), (8, 5)]" 7 5] ne ev
  show ?thesis by blast
qed

subsection \<open>The interleaver\<close>

text \<open>The spec's scenario: region item 1 passes the gate, item 2 does not, and the global
  list fills the rest.\<close>

lemma interleave_pairs_scenario:
  "interleave_pairs [(1::int, 100::int), (2, 50)] [(3, 200), (1, 100), (4, 10)]
      (map_of [(1, 1), (2, 0)]) (1 / 5) 4
    = [(1, 100, ''region''), (3, 200, ''global''), (4, 10, ''global'')]"
  by code_simp

lemma out_inv_append_global:
  assumes "out_inv rn th top_n outl seenl" "int (length outl) < top_n" "iid \<notin> seenl"
  shows "out_inv rn th top_n (outl @ [(iid, score, ''global'')]) (insert iid seenl)"
  using assms unfolding out_inv_def by auto

lemma out_inv_append_region:
  assumes "out_inv rn th top_n outl seenl" "int (length outl) < top_n" "iid \<notin> seenl"
    "th \<le> dict_get rn iid 0"
  shows "out_inv rn th top_n (outl @ [(iid, score, ''region'')]) (insert iid seenl)"
  using assms unfolding out_inv_def by auto

lemma backfill_inv:
  "out_inv rn th top_n outl seenl \<Longrightarrow> \<exists>sn. out_inv rn th top_n (backfill b top_n outl seenl i) sn"
proof (induction b top_n outl seenl i rule: backfill.induct)
  case (1 b top_n out_acc seen_acc i)
  show ?case
  proof (cases "int (length out_acc) < top_n \<and> i < length b")
    case False
    then show ?thesis using "1.prems" by (subst backfill.simps) auto
  next
    case True
    obtain iid score where p: "b ! i = (iid, score)" by (cases "b ! i")
    show ?thesis
    proof (cases "iid \<in> seen_acc")
      case True
      with \<open>int (length out_acc) < top_n \<and> i < length b\<close> p "1.IH"(2) "1.prems"
      show ?thesis by (subst backfill.simps) auto
    next
      case False
      have "out_inv rn th top_n (out_acc @ [(iid, score, ''global'')]) (insert iid seen_acc)"
        using "1.prems" True False by (intro out_inv_append_global) auto
      with True False p "1.IH"(1)
      show ?thesis by (subst backfill.simps) auto
    qed
  qed
qed

lemma loop_body_inv:
  assumes "out_inv rn th top_n (out s) (seen s)" "loop_cond a b top_n s"
    "loop_body a b rn th top_n s = Continue s'"
  shows "out_inv rn th top_n (out s') (seen s')"
proof -
  have lt: "int (length (out s)) < top_n" using assms(2) by (simp add: loop_cond_def)
  show ?thesis
    using assms(3) assms(1) lt
      out_inv_append_global [OF assms(1) lt] out_inv_append_region [OF assms(1) lt]
    by (auto simp: loop_body_def Let_def split: if_splits prod.splits)
qed

lemma loop_body_break_inv:
  assumes "out_inv rn th top_n (out s) (seen s)"
    "loop_body a b rn th top_n s = Break r"
  shows "\<exists>sn. out_inv rn th top_n r sn"
  using assms backfill_inv [of rn th top_n "out s" "seen s" b "ib s"]
  by (auto simp: loop_body_def Let_def split: if_splits prod.splits)

lemma interleave_loop_inv:
  "out_inv rn th top_n (out s) (seen s) \<Longrightarrow> \<exists>sn. out_inv rn th top_n (interleave_loop a b rn th top_n s) sn"
proof (induction a b rn th top_n s rule: interleave_loop.induct)
  case (1 a b rn th top_n s)
  show ?case
  proof (cases "loop_cond a b top_n s")
    case False
    then show ?thesis using "1.prems" by (subst interleave_loop.simps) auto
  next
    case True
    show ?thesis
    proof (cases "loop_body a b rn th top_n s")
      case (Continue s')
      have "out_inv rn th top_n (out s') (seen s')"
        using "1.prems" True Continue by (rule loop_body_inv)
      then have "\<exists>sn. out_inv rn th top_n (interleave_loop a b rn th top_n s') sn"
        using "1.IH" True Continue by simp
      then show ?thesis using True Continue by (subst interleave_loop.simps) simp
    next
      case (Break r)
      then show ?thesis
        using True loop_body_break_inv [OF "1.prems" Break]
        by (subst interleave_loop.simps) simp
    qed
  qed
qed

text \<open>When the result count is not positive the loop is not entered and the output is empty.\<close>

lemma interleave_pairs_nonpositive_top_n:
  "top_n \<le> 0 \<Longrightarrow> interleave_pairs a b rn th top_n = []"
  unfolding interleave_pairs_def
  by (subst interleave_loop.simps) (simp add: init_state_def loop_cond_def)

text \<open>
  C2. For all region and global lists, all normalized-score maps, all thresholds and every
  result count \<open>top_n\<close> (an int that is not negative), the output of \<open>interleave_pairs\<close> has
  length at most \<open>top_n\<close>, contains no item id twice, and every entry tagged "region" has a
  normalized regional score \<open>region_norm.get(iid, 0.0)\<close> at or above the threshold. The last
  two hold for every int \<open>top_n\<close>, and the length is at most \<open>max(0, top_n)\<close> for every int.
\<close>

theorem interleave_pairs_output_bounds:
  "(0 \<le> top_n \<longrightarrow> int (length (interleave_pairs a b rn th top_n)) \<le> top_n)
   \<and> int (length (interleave_pairs a b rn th top_n)) \<le> max 0 top_n
   \<and> distinct (map fst (interleave_pairs a b rn th top_n))
   \<and> (\<forall>(iid, score, src) \<in> set (interleave_pairs a b rn th top_n).
        src = ''region'' \<longrightarrow> th \<le> dict_get rn iid 0)"
proof -
  have "out_inv rn th top_n (out (init_state :: 'a loop_state)) (seen (init_state :: 'a loop_state))"
    by (simp add: out_inv_def init_state_def)
  then obtain sn where "out_inv rn th top_n (interleave_pairs a b rn th top_n) sn"
    unfolding interleave_pairs_def using interleave_loop_inv by blast
  then have inv: "int (length (interleave_pairs a b rn th top_n)) \<le> max 0 top_n"
    "distinct (map fst (interleave_pairs a b rn th top_n))"
    "\<forall>(iid, score, src) \<in> set (interleave_pairs a b rn th top_n).
        src = ''region'' \<longrightarrow> th \<le> dict_get rn iid 0"
    unfolding out_inv_def by simp_all
  from inv(1) have "0 \<le> top_n \<longrightarrow> int (length (interleave_pairs a b rn th top_n)) \<le> top_n"
    by (auto simp: max_def)
  with inv show ?thesis by (intro conjI)
qed

theorem interleave_pairs_output_bounds_witness:
  "(0::int) \<le> 4
   \<and> int (length (interleave_pairs [(1::int, 100::int), (2, 50)] [(3, 200), (1, 100), (4, 10)]
          (map_of [(1, 1), (2, 0)]) (1 / 5) 4)) \<le> 4
   \<and> distinct (map fst (interleave_pairs [(1::int, 100::int), (2, 50)] [(3, 200), (1, 100), (4, 10)]
          (map_of [(1, 1), (2, 0)]) (1 / 5) 4))
   \<and> (1, 100, ''region'') \<in> set (interleave_pairs [(1::int, 100::int), (2, 50)]
          [(3, 200), (1, 100), (4, 10)] (map_of [(1, 1), (2, 0)]) (1 / 5) 4)
   \<and> (1 / 5 :: real) \<le> dict_get (map_of [(1, 1), (2, 0)]) (1::int) 0"
proof -
  have z: "(0::int) \<le> 4" by simp
  have m: "(1, 100, ''region'') \<in> set (interleave_pairs [(1::int, 100::int), (2, 50)]
          [(3, 200), (1, 100), (4, 10)] (map_of [(1, 1), (2, 0)]) (1 / 5) 4)"
    unfolding interleave_pairs_scenario by simp
  from interleave_pairs_output_bounds
    [of 4 "[(1::int, 100::int), (2, 50)]" "[(3, 200), (1, 100), (4, 10)]"
      "map_of [(1, 1), (2, 0)]" "1 / 5"] z m
  show ?thesis by fast
qed

lemma backfill_eq:
  "backfill b top_n outl sn i =
     outl @ take (nat (top_n - int (length outl))) (map tag_global (first_unseen sn (drop i b)))"
proof (induction b top_n outl sn i rule: backfill.induct)
  case (1 b top_n out_acc seen_acc i)
  show ?case
  proof (cases "int (length out_acc) < top_n \<and> i < length b")
    case False
    then show ?thesis by (subst backfill.simps) auto
  next
    case True
    obtain iid score where p: "b ! i = (iid, score)" by (cases "b ! i")
    have d: "drop i b = (iid, score) # drop (Suc i) b"
      using True p by (metis Cons_nth_drop_Suc)
    show ?thesis
    proof (cases "iid \<in> seen_acc")
      case True
      with \<open>int (length out_acc) < top_n \<and> i < length b\<close> p d "1.IH"(2)
      show ?thesis by (subst backfill.simps) simp
    next
      case False
      have n: "nat (top_n - int (length out_acc)) = Suc (nat (top_n - int (length (out_acc @ [(iid, score, ''global'')]))))"
        using True by auto
      have "backfill b top_n out_acc seen_acc i
          = backfill b top_n (out_acc @ [(iid, score, ''global'')]) (insert iid seen_acc) (i + 1)"
        using True False p by (subst backfill.simps) simp
      also have "\<dots> = (out_acc @ [(iid, score, ''global'')])
          @ take (nat (top_n - int (length (out_acc @ [(iid, score, ''global'')]))))
              (map tag_global (first_unseen (insert iid seen_acc) (drop (i + 1) b)))"
        using True False p "1.IH"(1) by simp
      also have "\<dots> = out_acc @ take (nat (top_n - int (length out_acc)))
              (map tag_global (first_unseen seen_acc (drop i b)))"
        unfolding n d using False by (simp add: tag_global_def)
      finally show ?thesis .
    qed
  qed
qed

lemma first_unseen_distinct:
  "distinct (map fst xs) \<Longrightarrow> fst ` set xs \<inter> sn = {} \<Longrightarrow> first_unseen sn xs = xs"
  by (induction sn xs rule: first_unseen.induct) auto

lemma first_unseen_keys:
  "distinct (map fst (first_unseen sn xs)) \<and> fst ` set (first_unseen sn xs) \<inter> sn = {}"
  by (induction sn xs rule: first_unseen.induct) auto

text \<open>
  C7. With an empty region list, the output of \<open>interleave_pairs\<close> is, for every global
  list, score map, threshold and \<open>top_n\<close>, the global list in its own order, each id kept at
  its first entry only, every entry tagged "global", cut to the first \<open>top_n\<close> entries (none
  when \<open>top_n\<close> is not positive). When the global list has no repeated id that is the
  global list itself, tagged and cut.
\<close>

theorem interleave_pairs_empty_region:
  "interleave_pairs [] b rn th top_n = take (nat top_n) (map tag_global (first_unseen {} b))
   \<and> (distinct (map fst b) \<longrightarrow> interleave_pairs [] b rn th top_n = take (nat top_n) (map tag_global b))"
proof -
  have main: "interleave_pairs [] b rn th top_n = take (nat top_n) (map tag_global (first_unseen {} b))"
  proof (cases "loop_cond [] b top_n init_state")
    case True
    then have "interleave_pairs [] b rn th top_n = backfill b top_n [] {} 0"
      unfolding interleave_pairs_def
      by (subst interleave_loop.simps) (simp add: loop_body_def init_state_def)
    then show ?thesis by (simp add: backfill_eq)
  next
    case False
    then have "interleave_pairs [] b rn th top_n = []"
      unfolding interleave_pairs_def
      by (subst interleave_loop.simps) (simp add: init_state_def)
    moreover have "top_n \<le> 0 \<or> b = []"
      using False by (auto simp: loop_cond_def init_state_def)
    ultimately show ?thesis by auto
  qed
  moreover have "first_unseen {} b = b" if "distinct (map fst b)"
    using that by (intro first_unseen_distinct) auto
  ultimately show ?thesis by simp
qed

theorem interleave_pairs_empty_region_witness:
  "distinct (map fst [(3::int, 200::int), (1, 100), (4, 10)])
   \<and> interleave_pairs [] [(3::int, 200::int), (1, 100), (4, 10)] (map_of [(1, 1)]) (1 / 5) 2
       = [(3, 200, ''global''), (1, 100, ''global'')]"
proof -
  have d: "distinct (map fst [(3::int, 200::int), (1, 100), (4, 10)])" by simp
  from interleave_pairs_empty_region
    [of "[(3::int, 200::int), (1, 100), (4, 10)]" "map_of [(1, 1)]" "1 / 5" 2] d
  show ?thesis by (simp add: tag_global_def)
qed

lemma loop_body_decreases:
  assumes "loop_body a b rn th top_n s = Continue s'"
  shows "loop_measure a b s' < loop_measure a b s"
  using assms
  by (auto simp: loop_body_def loop_measure_def Let_def split: if_splits prod.splits)

lemma loop_fuel_enough:
  "loop_measure a b s \<le> n \<Longrightarrow>
     loop_fuel n a b rn th top_n s = Some (interleave_loop a b rn th top_n s)"
proof (induction n arbitrary: s)
  case 0
  then have "\<not> loop_cond a b top_n s"
    by (auto simp: loop_measure_def loop_cond_def split: if_splits)
  then show ?case by (subst interleave_loop.simps) simp
next
  case (Suc n)
  show ?case
  proof (cases "loop_cond a b top_n s")
    case False
    then show ?thesis by (subst interleave_loop.simps) simp
  next
    case True
    show ?thesis
    proof (cases "loop_body a b rn th top_n s")
      case (Continue s')
      then have "loop_measure a b s' \<le> n"
        using loop_body_decreases [OF Continue] Suc.prems by simp
      then show ?thesis
        using True Continue Suc.IH by (subst interleave_loop.simps) simp
    next
      case (Break r)
      then show ?thesis using True by (subst interleave_loop.simps) simp
    qed
  qed
qed

lemma loop_body_progress:
  assumes "loop_cond a b top_n s"
  shows "(\<exists>s'. loop_body a b rn th top_n s = Continue s' \<and> ia s' = ia s + 1 \<and> ib s' = ib s)
    \<or> (\<exists>s'. loop_body a b rn th top_n s = Continue s' \<and> ib s' = ib s + 1 \<and> ia s' = ia s)
    \<or> (\<exists>r. loop_body a b rn th top_n s = Break r)
    \<or> (loop_body a b rn th top_n s = Continue (s\<lparr>turn := ''region''\<rparr>)
        \<and> loop_cond a b top_n (s\<lparr>turn := ''region''\<rparr>)
        \<and> (\<exists>s''. loop_body a b rn th top_n (s\<lparr>turn := ''region''\<rparr>) = Continue s''
              \<and> ia s'' = ia s + 1 \<and> ib s'' = ib s))"
  using assms
  by (auto simp: loop_body_def loop_cond_def Let_def split: prod.splits)

text \<open>
  C10. \<open>interleave_pairs\<close> terminates on every input: the loop has left after at most
  \<open>2 * (len(a) + len(b))\<close> passes through its body, with the function's result. And every
  pass either moves the region cursor by one, or moves the global cursor by one, or leaves
  through the backfill branch, or sets the turn back to "region" in a state where the
  loop goes on and the next pass moves the region cursor.
\<close>

theorem interleave_pairs_terminates:
  "loop_fuel (2 * (length a + length b)) a b rn th top_n init_state
     = Some (interleave_pairs a b rn th top_n)
   \<and> (loop_cond a b top_n s \<longrightarrow>
        (\<exists>s'. loop_body a b rn th top_n s = Continue s' \<and> ia s' = ia s + 1 \<and> ib s' = ib s)
      \<or> (\<exists>s'. loop_body a b rn th top_n s = Continue s' \<and> ib s' = ib s + 1 \<and> ia s' = ia s)
      \<or> (\<exists>r. loop_body a b rn th top_n s = Break r)
      \<or> (loop_body a b rn th top_n s = Continue (s\<lparr>turn := ''region''\<rparr>)
          \<and> loop_cond a b top_n (s\<lparr>turn := ''region''\<rparr>)
          \<and> (\<exists>s''. loop_body a b rn th top_n (s\<lparr>turn := ''region''\<rparr>) = Continue s''
                \<and> ia s'' = ia s + 1 \<and> ib s'' = ib s)))"
proof -
  have "loop_measure a b (init_state :: 'a loop_state) \<le> 2 * (length a + length b)"
    by (simp add: loop_measure_def init_state_def)
  then have "loop_fuel (2 * (length a + length b)) a b rn th top_n init_state
     = Some (interleave_pairs a b rn th top_n)"
    unfolding interleave_pairs_def by (rule loop_fuel_enough)
  then show ?thesis using loop_body_progress [of a b top_n s rn th] by blast
qed


theorem interleave_pairs_terminates_witness:
  "loop_cond [(1::int, 100::int)] [(3, 200)] 4
     \<lparr>out = [], seen = {}, ia = 0, ib = 1, turn = ''global''\<rparr>
   \<and> loop_body [(1::int, 100::int)] [(3, 200)] (map_of [(1, 1)]) (1 / 5) 4
       \<lparr>out = [], seen = {}, ia = 0, ib = 1, turn = ''global''\<rparr>
     = Continue \<lparr>out = [], seen = {}, ia = 0, ib = 1, turn = ''region''\<rparr>
   \<and> loop_fuel 4 [(1::int, 100::int)] [(3, 200)] (map_of [(1, 1)]) (1 / 5) 4 init_state
     = Some [(1, 100, ''region''), (3, 200, ''global'')]"
proof -
  have c: "loop_cond [(1::int, 100::int)] [(3, 200)] 4
     \<lparr>out = [], seen = {}, ia = 0, ib = 1, turn = ''global''\<rparr>"
    by (simp add: loop_cond_def)
  have bd: "loop_body [(1::int, 100::int)] [(3, 200)] (map_of [(1, 1)]) (1 / 5) 4
       \<lparr>out = [], seen = {}, ia = 0, ib = 1, turn = ''global''\<rparr>
     = Continue \<lparr>out = [], seen = {}, ia = 0, ib = 1, turn = ''region''\<rparr>"
    by (simp add: loop_body_def dict_get_def)
  have ev: "interleave_pairs [(1::int, 100::int)] [(3, 200)] (map_of [(1, 1)]) (1 / 5) 4
      = [(1, 100, ''region''), (3, 200, ''global'')]"
    by code_simp
  from interleave_pairs_terminates
    [of "[(1::int, 100::int)]" "[(3, 200)]" "map_of [(1, 1)]" "1 / 5" 4
      "\<lparr>out = [], seen = {}, ia = 0, ib = 1, turn = ''global''\<rparr>"] c bd ev
  show ?thesis by simp
qed

subsection \<open>The candidates of the warm start\<close>

lemma in_set_update:
  "(i, c) \<in> set (AList.update k v al) \<Longrightarrow> (i, c) = (k, v) \<or> (i, c) \<in> set al"
  by (induction al) (auto split: if_splits)

lemma in_set_map_entry:
  "distinct (map fst al) \<Longrightarrow> (i, c) \<in> set (AList.map_entry k f al) \<Longrightarrow>
     (i \<noteq> k \<and> (i, c) \<in> set al) \<or> (i = k \<and> (\<exists>c0. (k, c0) \<in> set al \<and> c = f c0))"
  by (induction al) (auto simp: image_iff split: if_splits)

lemma rule_step_inv:
  assumes "cands_inv bsk cs"
  shows "cands_inv bsk (if iid |\<notin>| bsk then AList.update iid v cs else cs)"
  using assms by (auto simp: cands_inv_def distinct_update dom_update)

lemma rule_fold_inv:
  "cands_inv bsk acc \<Longrightarrow>
   cands_inv bsk (foldl (\<lambda>cs (iid, score).
       if iid |\<notin>| bsk then AList.update iid \<lparr>c_rule = Some score, c_pop = None\<rparr> cs else cs) acc rr)"
proof (induction rr arbitrary: acc)
  case Nil
  then show ?case by simp
next
  case (Cons p rr)
  obtain iid score where p: "p = (iid, score)" by (cases p)
  show ?case using Cons.IH [OF rule_step_inv [OF Cons.prems, of iid "\<lparr>c_rule = Some score, c_pop = None\<rparr>"]]
    by (simp add: p)
qed

lemma rule_candidates_inv: "cands_inv bsk (rule_candidates bsk rr)"
  unfolding rule_candidates_def by (rule rule_fold_inv) (simp add: cands_inv_def)

lemma pop_candidates_fold: "pop_candidates bsk pop cs0 = foldl (pop_step bsk) cs0 pop"
proof -
  have "(\<lambda>cs (iid, score, src).
              if iid |\<notin>| bsk then
                (let cs1 = (if map_of cs iid = None
                            then AList.update iid \<lparr>c_rule = None, c_pop = None\<rparr> cs else cs)
                 in AList.map_entry iid (\<lambda>c. c\<lparr>c_pop := Some (real_of_int score)\<rparr>) cs1)
              else cs) = pop_step bsk"
    by (auto simp: pop_step_def fun_eq_iff)
  then show ?thesis by (simp add: pop_candidates_def)
qed

lemma pop_step_inv:
  assumes "cands_inv bsk cs"
  shows "cands_inv bsk (pop_step bsk cs p)"
  using assms
  by (cases p) (auto simp: pop_step_def cands_inv_def Let_def distinct_update dom_update
      distinct_map_entry dom_map_entry)

lemma pop_candidates_inv:
  "cands_inv bsk cs0 \<Longrightarrow> cands_inv bsk (pop_candidates bsk pop cs0)"
  unfolding pop_candidates_fold
  by (induction pop arbitrary: cs0) (auto intro: pop_step_inv)

lemma rule_fold_signal:
  "(\<forall>(i, c) \<in> set acc. c_rule c \<noteq> None \<and> c_pop c = None) \<Longrightarrow>
   (\<forall>(i, c) \<in> set (foldl (\<lambda>cs (iid, score).
       if iid |\<notin>| bsk then AList.update iid \<lparr>c_rule = Some score, c_pop = None\<rparr> cs else cs) acc rr).
      c_rule c \<noteq> None \<and> c_pop c = None)"
proof (induction rr arbitrary: acc)
  case Nil
  then show ?case by simp
next
  case (Cons p rr)
  obtain iid score where p: "p = (iid, score)" by (cases p)
  have "\<forall>(i, c) \<in> set (if iid |\<notin>| bsk then AList.update iid \<lparr>c_rule = Some score, c_pop = None\<rparr> acc else acc).
      c_rule c \<noteq> None \<and> c_pop c = None"
    using Cons.prems by (auto dest!: in_set_update)
  from Cons.IH [OF this] show ?case by (simp add: p)
qed

lemma rule_candidates_signal:
  "one_signal (fst ` set (rule_candidates bsk rr)) (rule_candidates bsk rr)"
proof -
  have "\<forall>(i, c) \<in> set (rule_candidates bsk rr). c_rule c \<noteq> None \<and> c_pop c = None"
    unfolding rule_candidates_def by (rule rule_fold_signal) simp
  moreover have "i \<in> fst ` set (rule_candidates bsk rr)"
    if "(i, c) \<in> set (rule_candidates bsk rr)" for i c
    using that by force
  ultimately show ?thesis unfolding one_signal_def by blast
qed

lemma pop_step_signal:
  assumes "one_signal K cs" "fst p \<notin> K" "distinct (map fst cs)"
  shows "one_signal K (pop_step bsk cs p)"
proof -
  obtain iid score src where p: "p = (iid, score, src)" by (cases p)
  show ?thesis
  proof (cases "iid |\<notin>| bsk")
    case False
    then show ?thesis using assms by (simp add: pop_step_def p)
  next
    case True
    define cs1 where "cs1 = (if map_of cs iid = None
                            then AList.update iid \<lparr>c_rule = None, c_pop = None\<rparr> cs else cs)"
    have eq: "pop_step bsk cs p = AList.map_entry iid (\<lambda>c. c\<lparr>c_pop := Some (real_of_int score)\<rparr>) cs1"
      using True by (simp add: pop_step_def p cs1_def)
    have d1: "distinct (map fst cs1)"
      using assms(3) by (simp add: cs1_def distinct_update)
    have cs1: "(i, c) \<in> set cs1 \<Longrightarrow> (i, c) \<in> set cs \<or> (i = iid \<and> c_rule c = None)" for i c
      unfolding cs1_def by (auto dest!: in_set_update split: if_splits)
    have "(i \<in> K \<and> c_rule c \<noteq> None \<and> c_pop c = None) \<or> (i \<notin> K \<and> c_rule c = None \<and> c_pop c \<noteq> None)"
      if "(i, c) \<in> set (pop_step bsk cs p)" for i c
    proof -
      from that in_set_map_entry [OF d1, of i c iid]
      consider (other) "i \<noteq> iid" "(i, c) \<in> set cs1"
        | (same) c0 where "i = iid" "(iid, c0) \<in> set cs1" "c = c0\<lparr>c_pop := Some (real_of_int score)\<rparr>"
        unfolding eq by blast
      then show ?thesis
      proof cases
        case other
        then have "(i, c) \<in> set cs" using cs1 by blast
        then show ?thesis using assms(1) unfolding one_signal_def by blast
      next
        case same
        have "c_rule c0 = None"
          using cs1 [OF same(2)] assms(1,2) p unfolding one_signal_def by auto
        then show ?thesis using same assms(2) p by simp
      qed
    qed
    then show ?thesis unfolding one_signal_def by blast
  qed
qed

lemma pop_candidates_signal:
  "one_signal K cs0 \<Longrightarrow> cands_inv bsk cs0 \<Longrightarrow> \<forall>p \<in> set pop. fst p \<notin> K \<Longrightarrow>
     one_signal K (pop_candidates bsk pop cs0)"
  unfolding pop_candidates_fold
proof (induction pop arbitrary: cs0)
  case Nil
  then show ?case by simp
next
  case (Cons p pop)
  have "one_signal K (pop_step bsk cs0 p)"
    using Cons.prems by (intro pop_step_signal) (simp_all add: cands_inv_def)
  moreover have "cands_inv bsk (pop_step bsk cs0 p)"
    using Cons.prems(2) by (rule pop_step_inv)
  ultimately show ?case using Cons.IH Cons.prems(3) by simp
qed

lemma rule_scores_keys: "fst ` set (rule_scores_of cs) \<subseteq> fst ` set cs"
  by (induction cs) (auto simp: rule_scores_of_def split: option.splits)

lemma pop_scores_keys: "fst ` set (pop_scores_of cs) \<subseteq> fst ` set cs"
  by (induction cs) (auto simp: pop_scores_of_def split: option.splits)

lemma map_of_rule_scores:
  "distinct (map fst cs) \<Longrightarrow> (iid, cmp) \<in> set cs \<Longrightarrow> map_of (rule_scores_of cs) iid = c_rule cmp"
proof (induction cs)
  case Nil
  then show ?case by simp
next
  case (Cons p cs)
  obtain k c where p: "p = (k, c)" by (cases p)
  note keys = rule_scores_keys [of cs]
  show ?case
  proof (cases "(iid, cmp) = (k, c)")
    case True
    have "k \<notin> fst ` set (rule_scores_of cs)" using Cons.prems(1) keys p by auto
    then have "map_of (rule_scores_of cs) k = None" by (simp add: map_of_eq_None_iff)
    then show ?thesis using True p
      by (cases "c_rule c") (simp_all add: rule_scores_of_def map_filter_simps)
  next
    case False
    then have m: "(iid, cmp) \<in> set cs" using Cons.prems(2) p by auto
    then have "iid \<noteq> k" using Cons.prems(1) p by (auto simp: image_iff)
    moreover have "map_of (rule_scores_of cs) iid = c_rule cmp"
      using Cons.IH Cons.prems(1) m by simp
    ultimately show ?thesis using p
      by (cases "c_rule c") (simp_all add: rule_scores_of_def map_filter_simps)
  qed
qed

lemma map_of_pop_scores:
  "distinct (map fst cs) \<Longrightarrow> (iid, cmp) \<in> set cs \<Longrightarrow> map_of (pop_scores_of cs) iid = c_pop cmp"
proof (induction cs)
  case Nil
  then show ?case by simp
next
  case (Cons p cs)
  obtain k c where p: "p = (k, c)" by (cases p)
  note keys = pop_scores_keys [of cs]
  show ?case
  proof (cases "(iid, cmp) = (k, c)")
    case True
    have "k \<notin> fst ` set (pop_scores_of cs)" using Cons.prems(1) keys p by auto
    then have "map_of (pop_scores_of cs) k = None" by (simp add: map_of_eq_None_iff)
    then show ?thesis using True p
      by (cases "c_pop c") (simp_all add: pop_scores_of_def map_filter_simps)
  next
    case False
    then have m: "(iid, cmp) \<in> set cs" using Cons.prems(2) p by auto
    then have "iid \<noteq> k" using Cons.prems(1) p by (auto simp: image_iff)
    moreover have "map_of (pop_scores_of cs) iid = c_pop cmp"
      using Cons.IH Cons.prems(1) m by simp
    ultimately show ?thesis using p
      by (cases "c_pop c") (simp_all add: pop_scores_of_def map_filter_simps)
  qed
qed

lemma warm_record_eq:
  assumes "distinct (map fst cs)" "cand \<in> set cs"
  shows "warm_record eng alpha
           (map_of (map (\<lambda>(k, v). (k, eps_norm (map snd (rule_scores_of cs)) v)) (rule_scores_of cs)))
           (map_of (map (\<lambda>(k, v). (k, eps_norm (map snd (pop_scores_of cs)) v)) (pop_scores_of cs)))
           cand
       = spec_warm_record eng alpha (map snd (rule_scores_of cs)) (map snd (pop_scores_of cs)) cand"
proof -
  obtain iid cmp where c: "cand = (iid, cmp)" by (cases cand)
  have r: "map_of (rule_scores_of cs) iid = c_rule cmp"
    using assms c by (intro map_of_rule_scores) simp_all
  have p: "map_of (pop_scores_of cs) iid = c_pop cmp"
    using assms c by (intro map_of_pop_scores) simp_all
  show ?thesis
    unfolding c warm_record_def spec_warm_record_def
    by (cases "c_rule cmp"; cases "c_pop cmp")
       (simp_all add: map_of_map dict_get_def r p Let_def)
qed

lemma warm_scoring_eq:
  assumes "distinct (map fst cs)"
  shows "warm_scoring eng top_n cs =
     Inr (py_prefix top_n (sorted_desc final_score
       (map (spec_warm_record eng (real (fcard (basket eng)) / (real (fcard (basket eng)) + 3))
               (map snd (rule_scores_of cs)) (map snd (pop_scores_of cs))) cs)))"
proof -
  have eq: "map (warm_record eng alpha
           (map_of (map (\<lambda>(k, v). (k, eps_norm (map snd (rule_scores_of cs)) v)) (rule_scores_of cs)))
           (map_of (map (\<lambda>(k, v). (k, eps_norm (map snd (pop_scores_of cs)) v)) (pop_scores_of cs)))) cs
      = map (spec_warm_record eng alpha (map snd (rule_scores_of cs)) (map snd (pop_scores_of cs))) cs"
    for alpha
    using assms by (intro map_cong refl warm_record_eq)
  show ?thesis
    unfolding warm_scoring_def minmax_dict_eq blend_alpha_eq
    by (simp only: sum.case Let_def eq)
qed

lemma recommend_warm_eq:
  assumes "basket eng \<noteq> {||}"
    and "fetch_rules db (basket eng) (top_n * 8) = Inr rules_dict"
    and "cs_rules = rule_candidates (basket eng) (sorted_desc snd rules_dict)"
    and "fetch_popularity db eng top_n top_n (basket eng |\<union>| fset_of_list (map fst cs_rules)) = Inr pop"
    and "cs = pop_candidates (basket eng) pop cs_rules"
  shows "recommend db eng top_n =
     Inr (py_prefix top_n (sorted_desc final_score
       (map (spec_warm_record eng (real (fcard (basket eng)) / (real (fcard (basket eng)) + 3))
               (map snd (rule_scores_of cs)) (map snd (pop_scores_of cs))) cs)))"
proof -
  have "cands_inv (basket eng) cs"
    unfolding assms(5) assms(3) by (intro pop_candidates_inv rule_candidates_inv)
  then have "distinct (map fst cs)" by (simp add: cands_inv_def)
  then show ?thesis
    using assms warm_scoring_eq [of cs eng top_n]
    by (simp add: recommend_def Let_def)
qed

lemma set_py_prefix: "set (py_prefix n xs) \<subseteq> set xs"
  by (auto simp: py_prefix_def dest: in_set_takeD)

lemma sorted_desc_sorted: "sorted_wrt (\<lambda>x y. key y \<le> key x) (sorted_desc key xs)"
proof -
  have "sorted (map (\<lambda>x. - key x) (sorted_desc key xs))"
    unfolding sorted_desc_def by (rule sorted_sort_key)
  then show ?thesis by (simp add: sorted_wrt_map sorted_wrt_iff_nth_less)
qed

lemma sorted_wrt_py_prefix: "sorted_wrt R xs \<Longrightarrow> sorted_wrt R (py_prefix n xs)"
  by (simp add: py_prefix_def sorted_wrt_take)

lemma one_signal_at_most_one:
  "one_signal K cs \<Longrightarrow> \<forall>(iid, c) \<in> set cs. c_rule c = None \<or> c_pop c = None"
  unfolding one_signal_def by fastforce

lemma one_signal_exactly_one:
  "one_signal K cs \<Longrightarrow> (iid, c) \<in> set cs \<Longrightarrow>
     (c_rule c \<noteq> None \<and> c_pop c = None) \<or> (c_rule c = None \<and> c_pop c \<noteq> None)"
  unfolding one_signal_def by fastforce

subsection \<open>recommend\<close>

lemma demo_rules:
  "fetch_rules demo_db (basket demo_engine) (5 * 8) = Inr [(20, 9 / 10), (30, 4 / 10)]"
  by (simp add: fetch_rules_def demo_db_def demo_engine_def dict_get_def)

lemma demo_rule_candidates:
  "rule_candidates (basket demo_engine) (sorted_desc snd [(20, 9 / 10), (30, 4 / 10)])
   = [(20, \<lparr>c_rule = Some (9 / 10), c_pop = None\<rparr>), (30, \<lparr>c_rule = Some (4 / 10), c_pop = None\<rparr>)]"
  by (simp add: rule_candidates_def sorted_desc_def demo_engine_def)

lemma demo_popularity:
  "fetch_popularity demo_db demo_engine 5 5 (basket demo_engine |\<union>| fset_of_list (map fst
     (rule_candidates (basket demo_engine) (sorted_desc snd [(20, 9 / 10), (30, 4 / 10)]))))
   = Inr [(40, 50, ''region''), (40, 50, ''global'')]"
  unfolding demo_rule_candidates by (simp add: fetch_popularity_def demo_db_def demo_engine_def)

lemma demo_recommend:
  "recommend demo_db demo_engine 5
   = Inr [WarmRec 20 ''tea'' (125000000 / 500000001) (Some (500000000 / 500000001)) None ''rules'',
          WarmRec 30 ''<unknown:30>'' 0 (Some 0) None ''rules'',
          WarmRec 40 ''<unknown:40>'' 0 None (Some 0) ''popularity'']"
  by code_simp

text \<open>
  C5. In warm-start mode (non-empty basket), when both fetches succeed: \<open>recommend\<close> returns,
  with \<open>alpha = n / (n + 3)\<close> for a basket of \<open>n\<close> items, the records of all candidates, the
  final score of each being \<open>alpha\<close> times its normalized rule score plus \<open>1 - alpha\<close> times its
  normalized popularity score, 0.0 standing for a signal the candidate lacks, and the tag
  being "rules" exactly when the candidate has a rule signal and "popularity" otherwise
  (\<open>spec_warm_record\<close>); the list is sorted by descending final score and cut by the slice
  \<open>[:top_n]\<close>, which is the first \<open>top_n\<close> records for \<open>top_n \<ge> 0\<close>.
\<close>

theorem warm_start_scoring:
  assumes "basket eng \<noteq> {||}"
    and "fetch_rules db (basket eng) (top_n * 8) = Inr rules_dict"
    and "cs_rules = rule_candidates (basket eng) (sorted_desc snd rules_dict)"
    and "fetch_popularity db eng top_n top_n (basket eng |\<union>| fset_of_list (map fst cs_rules)) = Inr pop"
    and "cs = pop_candidates (basket eng) pop cs_rules"
    and "alpha = real (fcard (basket eng)) / (real (fcard (basket eng)) + 3)"
    and "full = sorted_desc final_score
           (map (spec_warm_record eng alpha (map snd (rule_scores_of cs)) (map snd (pop_scores_of cs))) cs)"
  shows "blend_alpha (fcard (basket eng)) = Inr alpha
    \<and> recommend db eng top_n = Inr (py_prefix top_n full)
    \<and> mset full
        = mset (map (spec_warm_record eng alpha (map snd (rule_scores_of cs)) (map snd (pop_scores_of cs))) cs)
    \<and> sorted_wrt (\<lambda>x y. final_score y \<le> final_score x) full
    \<and> sorted_wrt (\<lambda>x y. final_score y \<le> final_score x) (py_prefix top_n full)
    \<and> (0 \<le> top_n \<longrightarrow> py_prefix top_n full = take (nat top_n) full)"
proof -
  have a: "blend_alpha (fcard (basket eng)) = Inr alpha"
    by (simp add: blend_alpha_eq assms(6))
  have r: "recommend db eng top_n = Inr (py_prefix top_n full)"
    unfolding assms(7) assms(6) using assms(1-5) by (rule recommend_warm_eq)
  have m: "mset full
      = mset (map (spec_warm_record eng alpha (map snd (rule_scores_of cs)) (map snd (pop_scores_of cs))) cs)"
    by (simp add: assms(7) sorted_desc_def)
  have s: "sorted_wrt (\<lambda>x y. final_score y \<le> final_score x) full"
    unfolding assms(7) by (rule sorted_desc_sorted)
  have t: "sorted_wrt (\<lambda>x y. final_score y \<le> final_score x) (py_prefix top_n full)"
    using s by (rule sorted_wrt_py_prefix)
  have p: "0 \<le> top_n \<longrightarrow> py_prefix top_n full = take (nat top_n) full"
    by (simp add: py_prefix_def)
  from a r m s t p show ?thesis by blast
qed

theorem warm_start_scoring_witness:
  "basket demo_engine \<noteq> {||}
   \<and> fetch_rules demo_db (basket demo_engine) (5 * 8) = Inr [(20, 9 / 10), (30, 4 / 10)]
   \<and> fetch_popularity demo_db demo_engine 5 5 (basket demo_engine |\<union>| fset_of_list (map fst
        (rule_candidates (basket demo_engine) (sorted_desc snd [(20, 9 / 10), (30, 4 / 10)]))))
       = Inr [(40, 50, ''region''), (40, 50, ''global'')]
   \<and> blend_alpha (fcard (basket demo_engine)) = Inr (1 / 4)
   \<and> recommend demo_db demo_engine 5
       = Inr [WarmRec 20 ''tea'' (125000000 / 500000001) (Some (500000000 / 500000001)) None ''rules'',
              WarmRec 30 ''<unknown:30>'' 0 (Some 0) None ''rules'',
              WarmRec 40 ''<unknown:40>'' 0 None (Some 0) ''popularity'']
   \<and> sorted_wrt (\<lambda>x y. final_score y \<le> final_score x)
        [WarmRec 20 ''tea'' (125000000 / 500000001) (Some (500000000 / 500000001)) None ''rules'',
         WarmRec 30 ''<unknown:30>'' 0 (Some 0) None ''rules'',
         WarmRec 40 ''<unknown:40>'' 0 None (Some 0) ''popularity'']"
proof -
  have b: "basket demo_engine \<noteq> {||}" by (simp add: demo_engine_def)
  have al: "1 / 4 = real (fcard (basket demo_engine)) / (real (fcard (basket demo_engine)) + 3)"
    by (simp add: demo_engine_def fcard_finsert_if)
  note w = warm_start_scoring [OF b demo_rules refl demo_popularity refl al refl]
  from w have a: "blend_alpha (fcard (basket demo_engine)) = Inr (1 / 4)"
    by (rule conjunct1)
  from w obtain full where
    r: "recommend demo_db demo_engine 5 = Inr (py_prefix 5 full)" and
    s: "sorted_wrt (\<lambda>x y. final_score y \<le> final_score x) (py_prefix 5 full)"
    by blast
  from r have "py_prefix 5 full =
      [WarmRec 20 ''tea'' (125000000 / 500000001) (Some (500000000 / 500000001)) None ''rules'',
       WarmRec 30 ''<unknown:30>'' 0 (Some 0) None ''rules'',
       WarmRec 40 ''<unknown:40>'' 0 None (Some 0) ''popularity'']"
    unfolding demo_recommend by (simp only: sum.inject)
  with s have s': "sorted_wrt (\<lambda>x y. final_score y \<le> final_score x)
      [WarmRec 20 ''tea'' (125000000 / 500000001) (Some (500000000 / 500000001)) None ''rules'',
       WarmRec 30 ''<unknown:30>'' 0 (Some 0) None ''rules'',
       WarmRec 40 ''<unknown:40>'' 0 None (Some 0) ''popularity'']"
    by (simp only:)
  show ?thesis
    by (intro conjI b demo_rules demo_popularity a demo_recommend s')
qed

lemma recommend_warm_cases:
  assumes "basket eng \<noteq> {||}" "recommend db eng top_n = Inr res"
  obtains rules_dict pop where
    "fetch_rules db (basket eng) (top_n * 8) = Inr rules_dict"
    "fetch_popularity db eng top_n top_n
       (basket eng |\<union>| fset_of_list (map fst (rule_candidates (basket eng) (sorted_desc snd rules_dict))))
     = Inr pop"
  using assms by (auto simp: recommend_def Let_def split: sum.splits)

lemma item_id_spec_warm_record: "item_id (spec_warm_record eng alpha rv pv cand) = fst cand"
  by (cases cand) (simp add: spec_warm_record_def Let_def)

text \<open>
  C6. For every basket and every \<open>top_n\<close>, in cold-start and in warm-start mode, no record
  that \<open>recommend\<close> returns has an item id of the basket. It holds whatever the two
  collaborators return: both loops that collect candidates test the basket themselves.
\<close>

theorem basket_items_never_recommended:
  assumes "recommend db eng top_n = Inr res" and "r \<in> set res"
  shows "item_id r |\<notin>| basket eng"
proof (cases "basket eng = {||}")
  case True
  then show ?thesis by simp
next
  case False
  from recommend_warm_cases [OF False assms(1)] obtain rules_dict pop where
    f: "fetch_rules db (basket eng) (top_n * 8) = Inr rules_dict"
      "fetch_popularity db eng top_n top_n
         (basket eng |\<union>| fset_of_list (map fst (rule_candidates (basket eng) (sorted_desc snd rules_dict))))
       = Inr pop"
    by blast
  define cs where "cs = pop_candidates (basket eng) pop
      (rule_candidates (basket eng) (sorted_desc snd rules_dict))"
  have inv: "cands_inv (basket eng) cs"
    unfolding cs_def by (intro pop_candidates_inv rule_candidates_inv)
  from recommend_warm_eq [OF False f(1) refl f(2) refl] assms(1)
  have "res = py_prefix top_n (sorted_desc final_score
       (map (spec_warm_record eng (real (fcard (basket eng)) / (real (fcard (basket eng)) + 3))
               (map snd (rule_scores_of cs)) (map snd (pop_scores_of cs))) cs))"
    by (simp add: cs_def)
  then have "r \<in> set (map (spec_warm_record eng (real (fcard (basket eng)) / (real (fcard (basket eng)) + 3))
               (map snd (rule_scores_of cs)) (map snd (pop_scores_of cs))) cs)"
    using assms(2) set_py_prefix by (fastforce simp: sorted_desc_def)
  then have "item_id r \<in> fst ` set cs"
    by (force simp: item_id_spec_warm_record)
  then show ?thesis using inv by (auto simp: cands_inv_def)
qed

theorem basket_items_never_recommended_witness:
  "recommend demo_db demo_engine 5
     = Inr [WarmRec 20 ''tea'' (125000000 / 500000001) (Some (500000000 / 500000001)) None ''rules'',
            WarmRec 30 ''<unknown:30>'' 0 (Some 0) None ''rules'',
            WarmRec 40 ''<unknown:40>'' 0 None (Some 0) ''popularity'']
   \<and> item_id (WarmRec 30 ''<unknown:30>'' 0 (Some 0) None ''rules'') |\<notin>| basket demo_engine"
proof -
  have "WarmRec 30 ''<unknown:30>'' 0 (Some 0) None ''rules''
      \<in> set [WarmRec 20 ''tea'' (125000000 / 500000001) (Some (500000000 / 500000001)) None ''rules'',
            WarmRec 30 ''<unknown:30>'' 0 (Some 0) None ''rules'',
            WarmRec 40 ''<unknown:40>'' 0 None (Some 0) ''popularity'']"
    by simp
  from basket_items_never_recommended [OF demo_recommend this] demo_recommend
  show ?thesis by blast
qed

lemma spec_warm_record_signal:
  assumes "(c_rule cmp \<noteq> None \<and> c_pop cmp = None) \<or> (c_rule cmp = None \<and> c_pop cmp \<noteq> None)"
    and "r = spec_warm_record eng alpha rv pv (iid, cmp)"
  shows "(\<exists>x. rule_norm r = Some x \<and> pop_norm r = None \<and> final_score r = alpha * x)
       \<or> (\<exists>y. rule_norm r = None \<and> pop_norm r = Some y \<and> final_score r = (1 - alpha) * y)"
  using assms by (auto simp: spec_warm_record_def Let_def)

text \<open>
  C9. In warm-start mode, when the popularity fetch returns no id of the exclusion list it
  was given (the basket and the rule candidates), every candidate carries at most one
  signal, a rule strength or a popularity count; so in every record returned one of
  \<open>rule_norm\<close> and \<open>pop_norm\<close> is null, and the final score is \<open>alpha * rule_norm\<close> or
  \<open>(1 - alpha) * pop_norm\<close>.
\<close>

theorem warm_candidates_single_signal:
  assumes "basket eng \<noteq> {||}"
    and "fetch_rules db (basket eng) (top_n * 8) = Inr rules_dict"
    and "cs_rules = rule_candidates (basket eng) (sorted_desc snd rules_dict)"
    and "fetch_popularity db eng top_n top_n (basket eng |\<union>| fset_of_list (map fst cs_rules)) = Inr pop"
    and "\<forall>(iid, score, src) \<in> set pop. iid |\<notin>| basket eng |\<union>| fset_of_list (map fst cs_rules)"
    and "cs = pop_candidates (basket eng) pop cs_rules"
    and "alpha = real (fcard (basket eng)) / (real (fcard (basket eng)) + 3)"
  shows "(\<forall>(iid, c) \<in> set cs. c_rule c = None \<or> c_pop c = None)
    \<and> blend_alpha (fcard (basket eng)) = Inr alpha
    \<and> (\<exists>res. recommend db eng top_n = Inr res
          \<and> (\<forall>r \<in> set res.
                (\<exists>x. rule_norm r = Some x \<and> pop_norm r = None \<and> final_score r = alpha * x)
              \<or> (\<exists>y. rule_norm r = None \<and> pop_norm r = Some y \<and> final_score r = (1 - alpha) * y)))"
proof -
  have k: "\<forall>p \<in> set pop. fst p \<notin> fst ` set cs_rules"
  proof
    fix p assume p: "p \<in> set pop"
    obtain iid score src where e: "p = (iid, score, src)" by (cases p)
    from assms(5) p e have "iid |\<notin>| basket eng |\<union>| fset_of_list (map fst cs_rules)"
      by blast
    then have "iid \<notin> set (map fst cs_rules)"
      by (simp add: fset_of_list.rep_eq)
    then show "fst p \<notin> fst ` set cs_rules" by (simp add: e)
  qed
  have sig: "one_signal (fst ` set cs_rules) cs"
    unfolding assms(6)
    using k by (intro pop_candidates_signal) (simp_all add: assms(3) rule_candidates_signal rule_candidates_inv)
  have one: "\<forall>(iid, c) \<in> set cs. c_rule c = None \<or> c_pop c = None"
    using sig by (rule one_signal_at_most_one)
  have a: "blend_alpha (fcard (basket eng)) = Inr alpha"
    by (simp add: blend_alpha_eq assms(7))
  define full where "full = map (spec_warm_record eng alpha (map snd (rule_scores_of cs))
      (map snd (pop_scores_of cs))) cs"
  have r: "recommend db eng top_n = Inr (py_prefix top_n (sorted_desc final_score full))"
    unfolding full_def assms(7) using assms(1,2,3,4,6) by (rule recommend_warm_eq)
  have "(\<exists>x. rule_norm r = Some x \<and> pop_norm r = None \<and> final_score r = alpha * x)
      \<or> (\<exists>y. rule_norm r = None \<and> pop_norm r = Some y \<and> final_score r = (1 - alpha) * y)"
    if "r \<in> set (py_prefix top_n (sorted_desc final_score full))" for r
  proof -
    have "r \<in> set full"
      using that set_py_prefix [of top_n "sorted_desc final_score full"]
      by (auto simp: sorted_desc_def)
    then obtain iid cmp where c: "(iid, cmp) \<in> set cs"
      "r = spec_warm_record eng alpha (map snd (rule_scores_of cs)) (map snd (pop_scores_of cs)) (iid, cmp)"
      unfolding full_def by auto
    have "(c_rule cmp \<noteq> None \<and> c_pop cmp = None) \<or> (c_rule cmp = None \<and> c_pop cmp \<noteq> None)"
      using sig c(1) by (rule one_signal_exactly_one)
    then show ?thesis using c(2) by (rule spec_warm_record_signal)
  qed
  with r one a show ?thesis by blast
qed

theorem warm_candidates_single_signal_witness:
  "basket demo_engine \<noteq> {||}
   \<and> fetch_rules demo_db (basket demo_engine) (5 * 8) = Inr [(20, 9 / 10), (30, 4 / 10)]
   \<and> fetch_popularity demo_db demo_engine 5 5 (basket demo_engine |\<union>| fset_of_list (map fst
        (rule_candidates (basket demo_engine) (sorted_desc snd [(20, 9 / 10), (30, 4 / 10)]))))
       = Inr [(40, 50, ''region''), (40, 50, ''global'')]
   \<and> 40 |\<notin>| basket demo_engine |\<union>| fset_of_list (map fst
        (rule_candidates (basket demo_engine) (sorted_desc snd [(20, 9 / 10), (30, 4 / 10)])))
   \<and> blend_alpha (fcard (basket demo_engine)) = Inr (1 / 4)
   \<and> recommend demo_db demo_engine 5
       = Inr [WarmRec 20 ''tea'' (125000000 / 500000001) (Some (500000000 / 500000001)) None ''rules'',
              WarmRec 30 ''<unknown:30>'' 0 (Some 0) None ''rules'',
              WarmRec 40 ''<unknown:40>'' 0 None (Some 0) ''popularity'']"
proof -
  have b: "basket demo_engine \<noteq> {||}" by (simp add: demo_engine_def)
  have al: "1 / 4 = real (fcard (basket demo_engine)) / (real (fcard (basket demo_engine)) + 3)"
    by (simp add: demo_engine_def fcard_finsert_if)
  have e: "40 |\<notin>| basket demo_engine |\<union>| fset_of_list (map fst
        (rule_candidates (basket demo_engine) (sorted_desc snd [(20, 9 / 10), (30, 4 / 10)])))"
    unfolding demo_rule_candidates by (simp add: demo_engine_def)
  then have h: "\<forall>(iid, score, src) \<in> set [(40, 50::int, ''region''), (40, 50, ''global'')].
      iid |\<notin>| basket demo_engine |\<union>| fset_of_list (map fst
        (rule_candidates (basket demo_engine) (sorted_desc snd [(20, 9 / 10), (30, 4 / 10)])))"
    by simp
  note w = warm_candidates_single_signal [OF b demo_rules refl demo_popularity h refl al]
  from w have a: "blend_alpha (fcard (basket demo_engine)) = Inr (1 / 4)"
    by blast
  show ?thesis
    by (intro conjI b demo_rules demo_popularity e a demo_recommend)
qed

lemma recommend_connect_fails:
  assumes "connect db = Some e"
  shows "recommend db eng top_n = Inl e"
  using assms by (simp add: recommend_def fetch_popularity_def fetch_rules_def Let_def)

text \<open>
  C8. The claim: when \<open>recommend\<close>, \<open>add_item\<close> or \<open>remove_item\<close> fails with a data-unavailable
  error of a collaborator, the error reaches the caller and the basket and the catalog are
  as they were before the call. With the database unreachable, \<open>add_item\<close> and \<open>remove_item\<close>
  do return the error, but the basket has changed: the item was added, or removed, before
  \<open>recommend\<close> ran.
\<close>

theorem add_item_failure_keeps_mutation:
  "snd (add_item down_db demo_engine 11 15) = Inl DataUnavailable
   \<and> basket demo_engine = {|10|}
   \<and> basket (fst (add_item down_db demo_engine 11 15)) = {|11, 10|}
   \<and> basket (fst (add_item down_db demo_engine 11 15)) \<noteq> basket demo_engine
   \<and> snd (remove_item down_db demo_engine 10 15) = Inl DataUnavailable
   \<and> basket (fst (remove_item down_db demo_engine 10 15)) = {||}
   \<and> basket (fst (remove_item down_db demo_engine 10 15)) \<noteq> basket demo_engine"
  by (simp add: add_item_def remove_item_def Let_def recommend_def fetch_rules_def
      fetch_popularity_def down_db_def demo_db_def demo_engine_def fempty_not_finsert)

text \<open>
  C8, amended. A data-unavailable error of the popularity or rule collaborator reaches the
  caller of \<open>recommend\<close>, \<open>add_item\<close> and \<open>remove_item\<close> unchanged: from a failed connection, a
  failed popularity fetch (cold start), a failed rule fetch, or a failed popularity fetch
  after the rules (warm start). \<open>recommend\<close> writes no state. \<open>add_item\<close> and \<open>remove_item\<close>
  leave the catalog and the region as they were, and leave the basket with the item
  added, respectively removed, whether or not \<open>recommend\<close> failed.
\<close>

theorem failure_propagates_basket_write_stays:
  "(connect db = Some e \<longrightarrow>
        recommend db eng top_n = Inl e
      \<and> add_item db eng item top_n = (eng\<lparr>basket := finsert item (basket eng)\<rparr>, Inl e)
      \<and> remove_item db eng item top_n = (eng\<lparr>basket := basket eng |-| {|item|}\<rparr>, Inl e))
   \<and> (basket eng = {||} \<and> fetch_popularity db eng top_n top_n {||} = Inl e \<longrightarrow>
        recommend db eng top_n = Inl e)
   \<and> (basket eng \<noteq> {||} \<and> fetch_rules db (basket eng) (top_n * 8) = Inl e \<longrightarrow>
        recommend db eng top_n = Inl e)
   \<and> (basket eng \<noteq> {||} \<and> fetch_rules db (basket eng) (top_n * 8) = Inr rules_dict
        \<and> fetch_popularity db eng top_n top_n
            (basket eng |\<union>| fset_of_list (map fst
               (rule_candidates (basket eng) (sorted_desc snd rules_dict)))) = Inl e \<longrightarrow>
        recommend db eng top_n = Inl e)
   \<and> add_item db eng item top_n
       = (eng\<lparr>basket := finsert item (basket eng)\<rparr>,
          recommend db (eng\<lparr>basket := finsert item (basket eng)\<rparr>) top_n)
   \<and> remove_item db eng item top_n
       = (eng\<lparr>basket := basket eng |-| {|item|}\<rparr>,
          recommend db (eng\<lparr>basket := basket eng |-| {|item|}\<rparr>) top_n)
   \<and> id_to_item (fst (add_item db eng item top_n)) = id_to_item eng
   \<and> id_to_item (fst (remove_item db eng item top_n)) = id_to_item eng"
proof -
  have c: "connect db = Some e \<longrightarrow>
        recommend db eng top_n = Inl e
      \<and> add_item db eng item top_n = (eng\<lparr>basket := finsert item (basket eng)\<rparr>, Inl e)
      \<and> remove_item db eng item top_n = (eng\<lparr>basket := basket eng |-| {|item|}\<rparr>, Inl e)"
    by (simp add: recommend_connect_fails add_item_def remove_item_def Let_def)
  have p1: "basket eng = {||} \<and> fetch_popularity db eng top_n top_n {||} = Inl e \<longrightarrow>
        recommend db eng top_n = Inl e"
    by (simp add: recommend_def Let_def)
  have p2: "basket eng \<noteq> {||} \<and> fetch_rules db (basket eng) (top_n * 8) = Inl e \<longrightarrow>
        recommend db eng top_n = Inl e"
    by (simp add: recommend_def Let_def)
  have p3: "basket eng \<noteq> {||} \<and> fetch_rules db (basket eng) (top_n * 8) = Inr rules_dict
        \<and> fetch_popularity db eng top_n top_n
            (basket eng |\<union>| fset_of_list (map fst
               (rule_candidates (basket eng) (sorted_desc snd rules_dict)))) = Inl e \<longrightarrow>
        recommend db eng top_n = Inl e"
    by (simp add: recommend_def Let_def)
  have m: "add_item db eng item top_n
       = (eng\<lparr>basket := finsert item (basket eng)\<rparr>,
          recommend db (eng\<lparr>basket := finsert item (basket eng)\<rparr>) top_n)"
    "remove_item db eng item top_n
       = (eng\<lparr>basket := basket eng |-| {|item|}\<rparr>,
          recommend db (eng\<lparr>basket := basket eng |-| {|item|}\<rparr>) top_n)"
    "id_to_item (fst (add_item db eng item top_n)) = id_to_item eng"
    "id_to_item (fst (remove_item db eng item top_n)) = id_to_item eng"
    by (simp_all add: add_item_def remove_item_def Let_def)
  from c p1 p2 p3 m show ?thesis by blast
qed

theorem failure_propagates_basket_write_stays_witness:
  "connect down_db = Some DataUnavailable
   \<and> recommend down_db demo_engine 15 = Inl DataUnavailable
   \<and> add_item down_db demo_engine 11 15 = (demo_engine\<lparr>basket := {|11, 10|}\<rparr>, Inl DataUnavailable)
   \<and> remove_item down_db demo_engine 10 15 = (demo_engine\<lparr>basket := {||}\<rparr>, Inl DataUnavailable)
   \<and> basket (demo_engine\<lparr>basket := {||}\<rparr>) = {||}
   \<and> fetch_popularity down_db (demo_engine\<lparr>basket := {||}\<rparr>) 15 15 {||} = Inl DataUnavailable
   \<and> recommend down_db (demo_engine\<lparr>basket := {||}\<rparr>) 15 = Inl DataUnavailable
   \<and> basket demo_engine \<noteq> {||}
   \<and> fetch_rules down_db (basket demo_engine) (15 * 8) = Inl DataUnavailable
   \<and> fetch_rules pop_down_db (basket demo_engine) (5 * 8) = Inr [(20, 9 / 10), (30, 4 / 10)]
   \<and> fetch_popularity pop_down_db demo_engine 5 5 (basket demo_engine |\<union>| fset_of_list (map fst
        (rule_candidates (basket demo_engine) (sorted_desc snd [(20, 9 / 10), (30, 4 / 10)]))))
       = Inl DataUnavailable
   \<and> recommend pop_down_db demo_engine 5 = Inl DataUnavailable
   \<and> id_to_item (fst (add_item down_db demo_engine 11 15)) = id_to_item demo_engine"
proof -
  have c: "connect down_db = Some DataUnavailable" by (simp add: down_db_def)
  have be: "basket (demo_engine\<lparr>basket := {||}\<rparr>) = {||}" by simp
  have fp: "fetch_popularity down_db (demo_engine\<lparr>basket := {||}\<rparr>) 15 15 {||} = Inl DataUnavailable"
    by (simp add: fetch_popularity_def down_db_def)
  have bn: "basket demo_engine \<noteq> {||}" by (simp add: demo_engine_def)
  have fr: "fetch_rules down_db (basket demo_engine) (15 * 8) = Inl DataUnavailable"
    by (simp add: fetch_rules_def down_db_def demo_engine_def)
  have pr: "fetch_rules pop_down_db (basket demo_engine) (5 * 8) = Inr [(20, 9 / 10), (30, 4 / 10)]"
    by (simp add: fetch_rules_def pop_down_db_def demo_db_def demo_engine_def dict_get_def)
  have pp: "fetch_popularity pop_down_db demo_engine 5 5 (basket demo_engine |\<union>| fset_of_list (map fst
        (rule_candidates (basket demo_engine) (sorted_desc snd [(20, 9 / 10), (30, 4 / 10)]))))
       = Inl DataUnavailable"
    by (simp add: fetch_popularity_def pop_down_db_def demo_db_def)
  have fi: "finsert 11 (basket demo_engine) = {|11, 10|}" "basket demo_engine |-| {|10|} = {||}"
    by (simp_all add: demo_engine_def)
  note A = failure_propagates_basket_write_stays
    [of down_db DataUnavailable demo_engine 15 11 "[]"]
  note R = failure_propagates_basket_write_stays
    [of down_db DataUnavailable demo_engine 15 10 "[]"]
  note B = failure_propagates_basket_write_stays
    [of down_db DataUnavailable "demo_engine\<lparr>basket := {||}\<rparr>" 15 11 "[]"]
  note C = failure_propagates_basket_write_stays
    [of pop_down_db DataUnavailable demo_engine 5 11 "[(20, 9 / 10), (30, 4 / 10)]"]
  from A c have a1: "recommend down_db demo_engine 15 = Inl DataUnavailable"
    and a2: "add_item down_db demo_engine 11 15
       = (demo_engine\<lparr>basket := {|11, 10|}\<rparr>, Inl DataUnavailable)"
    and a4: "id_to_item (fst (add_item down_db demo_engine 11 15)) = id_to_item demo_engine"
    unfolding fi by blast+
  from R c have a3: "remove_item down_db demo_engine 10 15
       = (demo_engine\<lparr>basket := {||}\<rparr>, Inl DataUnavailable)"
    unfolding fi by blast
  from B be fp have b1: "recommend down_db (demo_engine\<lparr>basket := {||}\<rparr>) 15 = Inl DataUnavailable"
    by blast
  from C bn pr pp have c1: "recommend pop_down_db demo_engine 5 = Inl DataUnavailable"
    by blast
  show ?thesis
    by (intro conjI c a1 a2 a3 be fp b1 bn fr pr pp c1 a4)
qed

end
